theory Spec2Isabelle
  imports Complex_Main "HOL-Library.Multiset"
begin

section \<open>Data model\<close>

text \<open>
  The arrays of the program are numpy arrays of float64 and of integers. Floats are
  modelled by \<^typ>\<open>real\<close> (exact arithmetic), Python and numpy integers by \<^typ>\<open>int\<close>.
  A point is a row \<open>[x, y]\<close> of \<open>points\<close>, a face a row of three vertex indices of
  \<open>faces\<close>, a boundary segment a row of two vertex indices of \<open>boundary\<close>.
\<close>

datatype error = IndexError | ValueError | TypeError | KeyError | ZeroDivisionError | LinAlgError

type_synonym point = "real \<times> real"
type_synonym face = "int \<times> int \<times> int"
type_synonym segment = "int \<times> int"

text \<open>The three entries of a row of \<open>faces\<close>, in order, and \<open>face[i]\<close> for \<open>i\<close> in \<open>range(3)\<close>.\<close>

definition face_list :: "face \<Rightarrow> int list" where
  "face_list f = (case f of (a, b, c) \<Rightarrow> [a, b, c])"

definition face_at :: "face \<Rightarrow> nat \<Rightarrow> int" where
  "face_at f i = face_list f ! i"

text \<open>
  An exception ends the computation: \<open>bind_err r k\<close> runs \<open>k\<close> on the value of \<open>r\<close>
  unless \<open>r\<close> raised.

  numpy indexing of a one-dimensional axis by an integer: a negative index counts from
  the end, and an index outside \<open>[-n, n)\<close> raises IndexError.
\<close>

definition bind_err :: "error + 'a \<Rightarrow> ('a \<Rightarrow> error + 'b) \<Rightarrow> error + 'b" where
  "bind_err r k = (case r of Inl e \<Rightarrow> Inl e | Inr x \<Rightarrow> k x)"

definition np_index :: "'a list \<Rightarrow> int \<Rightarrow> error + 'a" where
  "np_index xs i =
     (if 0 \<le> i \<and> i < int (length xs) then Inr (xs ! nat i)
      else if i < 0 \<and> - int (length xs) \<le> i then Inr (xs ! nat (int (length xs) + i))
      else Inl IndexError)"

text \<open>A list comprehension whose body may raise: the first error ends it.\<close>

fun collect :: "('a \<Rightarrow> error + 'b) \<Rightarrow> 'a list \<Rightarrow> error + 'b list" where
  "collect g [] = Inr []"
| "collect g (x # xs) =
     (case g x of
        Inl e \<Rightarrow> Inl e
      | Inr y \<Rightarrow> (case collect g xs of Inl e \<Rightarrow> Inl e | Inr ys \<Rightarrow> Inr (y # ys)))"

text \<open>\<open>arr[face]\<close>: indexing an array by the row of three indices of a face.\<close>

definition np_take :: "'a list \<Rightarrow> face \<Rightarrow> error + 'a list" where
  "np_take arr f = collect (np_index arr) (face_list f)"

record mesh =
  points :: "point list"
  faces :: "face list"
  boundary :: "segment list"
  boundary_idxs :: "int set"
  areas :: "real list"
  edges :: "(int \<times> int) set"
  face_neighbors :: "(nat \<rightharpoonup> nat list) option"

section \<open>Mesh: derived topology\<close>

text \<open>\<open>tuple(sorted([x, y]))\<close> for two integers.\<close>

definition sorted_pair :: "int \<Rightarrow> int \<Rightarrow> int \<times> int" where
  "sorted_pair x y = (if y < x then (y, x) else (x, y))"

text \<open>
  \<open>Mesh._get_all_edges\<close>: a Python set, filled in two nested loops, then turned into an
  array in the set's iteration order, which the language leaves open. The model keeps
  the set.
\<close>

definition get_all_edges :: "face list \<Rightarrow> (int \<times> int) set" where
  "get_all_edges fs =
     foldl (\<lambda>all_edges f.
              foldl (\<lambda>acc i. insert (sorted_pair (face_at f i) (face_at f ((i + 1) mod 3))) acc)
                all_edges [0 ..< 3])
       {} fs"

text \<open>
  \<open>Mesh.__init__\<close>. The triangle area comes from \<open>utils.helper\<close>, a module whose code is
  not available: \<open>calculate_triangle_area\<close> is a parameter. The attribute
  \<open>face_neighbors\<close> does not exist until \<open>calculate_face_neighbors\<close> is called.
\<close>

definition Mesh_init ::
  "(point list \<Rightarrow> real) \<Rightarrow> point list \<Rightarrow> face list \<Rightarrow> segment list \<Rightarrow> error + mesh" where
  "Mesh_init calculate_triangle_area pts fs bd =
     (case collect (\<lambda>f. map_sum id calculate_triangle_area (np_take pts f)) fs of
        Inl e \<Rightarrow> Inl e
      | Inr as \<Rightarrow>
          Inr \<lparr>points = pts, faces = fs, boundary = bd,
               boundary_idxs = set (concat (map (\<lambda>(a, b). [a, b]) bd)),
               areas = as, edges = get_all_edges fs, face_neighbors = None\<rparr>)"

text \<open>
  Modelled from the spec: \<open>calculate_triangle_area\<close> of \<open>utils.helper\<close> is missing from
  the sources. The spec gives the per-face area as the unsigned planar area of a
  triangle from its three vertex coordinates, by the cross-product/2 formula.
\<close>

definition calculate_triangle_area :: "point list \<Rightarrow> real" where
  "calculate_triangle_area ps =
     (case ps of
        [(x1, y1), (x2, y2), (x3, y3)] \<Rightarrow>
          \<bar>(x2 - x1) * (y3 - y1) - (x3 - x1) * (y2 - y1)\<bar> / 2
      | _ \<Rightarrow> 0)"

text \<open>
  The indices numpy accepts for an axis of length \<open>n\<close>, the position such an index
  addresses, and the entries \<open>arr[face]\<close> selects when all three indices are accepted.
\<close>

definition valid_index :: "nat \<Rightarrow> int \<Rightarrow> bool" where
  "valid_index n i \<longleftrightarrow> - int n \<le> i \<and> i < int n"

definition position :: "nat \<Rightarrow> int \<Rightarrow> nat" where
  "position n i = (if i < 0 then nat (int n + i) else nat i)"

definition taken :: "'a list \<Rightarrow> face \<Rightarrow> 'a list" where
  "taken arr f = map (\<lambda>v. arr ! position (length arr) v) (face_list f)"

definition valid_faces :: "nat \<Rightarrow> face list \<Rightarrow> bool" where
  "valid_faces n fs \<longleftrightarrow> (\<forall>f\<in>set fs. \<forall>v\<in>set (face_list f). valid_index n v)"

text \<open>The faces that list the same three vertices as a face, in any internal order.\<close>

definition reorderings :: "face \<Rightarrow> face set" where
  "reorderings f =
     (case f of (a, b, c) \<Rightarrow>
        {(a, b, c), (a, c, b), (b, a, c), (b, c, a), (c, a, b), (c, b, a)})"

text \<open>The two end points of the \<open>i\<close>-th side of a face, as an unordered pair.\<close>

definition side :: "face \<Rightarrow> nat \<Rightarrow> int set" where
  "side f i = {face_at f i, face_at f ((i + 1) mod 3)}"

text \<open>The three sides of a face as \<open>_get_all_edges\<close> stores them.\<close>

definition sides_of :: "face \<Rightarrow> (int \<times> int) set" where
  "sides_of f =
     {sorted_pair (face_at f 0) (face_at f 1), sorted_pair (face_at f 1) (face_at f 2),
      sorted_pair (face_at f 2) (face_at f 0)}"

section \<open>Mesh: face adjacency\<close>

text \<open>
  \<open>np.where(self.faces == v)[0]\<close>: the row index of every entry of the array that
  equals \<open>v\<close>, in row-major order; a row is listed once for each matching entry.
\<close>

definition np_where_rows :: "face list \<Rightarrow> int \<Rightarrow> nat list" where
  "np_where_rows fs v =
     concat (map (\<lambda>(r, f). map (\<lambda>_. r) (filter (\<lambda>x. x = v) (face_list f))) (enumerate 0 fs))"

text \<open>
  One round of the outer loop of \<open>calculate_face_neighbors\<close>: the list stored under
  \<open>face_idx\<close> is extended once per vertex of the face, then filtered to the entries
  that occur exactly twice in it. Reading a missing key of the dict raises KeyError.
\<close>

definition neighbors_step ::
  "face list \<Rightarrow> (nat \<rightharpoonup> nat list) \<Rightarrow> nat \<times> face \<Rightarrow> error + (nat \<rightharpoonup> nat list)" where
  "neighbors_step fs d p =
     (case p of (face_idx, f) \<Rightarrow>
        (case d face_idx of
           None \<Rightarrow> Inl KeyError
         | Some l0 \<Rightarrow>
             (let l = foldl (\<lambda>acc neighbor_idx. acc @ np_where_rows fs neighbor_idx) l0 (face_list f)
              in Inr (d(face_idx \<mapsto> filter (\<lambda>idx. count_list l idx = 2) l)))))"

fun neighbors_loop ::
  "face list \<Rightarrow> (nat \<rightharpoonup> nat list) \<Rightarrow> (nat \<times> face) list \<Rightarrow> error + (nat \<rightharpoonup> nat list)" where
  "neighbors_loop fs d [] = Inr d"
| "neighbors_loop fs d (p # ps) =
     (case neighbors_step fs d p of Inl e \<Rightarrow> Inl e | Inr d' \<Rightarrow> neighbors_loop fs d' ps)"

text \<open>
  \<open>Mesh.calculate_face_neighbors\<close>: the dict starts with an empty list for every face
  index, is stored in the attribute \<open>face_neighbors\<close> and returned.
\<close>

definition calculate_face_neighbors :: "mesh \<Rightarrow> error + (mesh \<times> (nat \<rightharpoonup> nat list))" where
  "calculate_face_neighbors m =
     bind_err
       (neighbors_loop (faces m) (map_of (map (\<lambda>face_idx. (face_idx, [])) [0 ..< length (faces m)]))
          (enumerate 0 (faces m)))
       (\<lambda>d. Inr (m\<lparr>face_neighbors := Some d\<rparr>, d))"

text \<open>The neighbours listed for a face index (none when the call raised or the key is missing).\<close>

definition neighbors_of :: "mesh \<Rightarrow> nat \<Rightarrow> nat list" where
  "neighbors_of m A =
     (case calculate_face_neighbors m of
        Inl e \<Rightarrow> []
      | Inr (m', d) \<Rightarrow> (case d A of None \<Rightarrow> [] | Some l \<Rightarrow> l))"

text \<open>
  The list a face leaves under its index after its round of the loop, and the number of
  pairs of equal entries between two faces, which is how often the row of the second
  face is collected for the first.
\<close>

definition neighbor_list :: "face list \<Rightarrow> face \<Rightarrow> nat list" where
  "neighbor_list fs f =
     (let l = foldl (\<lambda>acc neighbor_idx. acc @ np_where_rows fs neighbor_idx) [] (face_list f)
      in filter (\<lambda>idx. count_list l idx = 2) l)"

definition overlap :: "face \<Rightarrow> face \<Rightarrow> nat" where
  "overlap f g = sum_list (map (count_list (face_list g)) (face_list f))"

text \<open>The vertex indices two faces have in common.\<close>

definition shared_vertices :: "face \<Rightarrow> face \<Rightarrow> int set" where
  "shared_vertices f g = set (face_list f) \<inter> set (face_list g)"

section \<open>Mesh: metrics\<close>

text \<open>
  The mean of an array in exact arithmetic. numpy rounds every float64 operation; the
  rounded computation is \<open>np_mean_rounded\<close> below.
\<close>

definition np_mean :: "real list \<Rightarrow> real" where
  "np_mean xs = sum_list xs / real (length xs)"

text \<open>
  \<open>Mesh.calculate_total_value\<close>. A Python function that falls off its end returns
  \<open>None\<close>: the result is \<open>Inr None\<close> then.
\<close>

definition calculate_total_value :: "mesh \<Rightarrow> real list \<Rightarrow> error + real option" where
  "calculate_total_value m u =
     (if length u = length (faces m) then
        bind_err
          (collect (\<lambda>face_idx.
              bind_err (np_index (areas m) (int face_idx)) (\<lambda>a.
              bind_err (np_index u (int face_idx)) (\<lambda>x. Inr (a * x))))
            [0 ..< length (faces m)])
          (\<lambda>terms. Inr (Some (sum_list terms)))
      else if length u = length (points m) then
        bind_err
          (collect (\<lambda>face_idx.
              bind_err (np_index (areas m) (int face_idx)) (\<lambda>a.
              bind_err (np_index (faces m) (int face_idx)) (\<lambda>f.
              bind_err (np_take u f) (\<lambda>xs. Inr (a * np_mean xs)))))
            [0 ..< length (faces m)])
          (\<lambda>terms. Inr (Some (sum_list terms)))
      else Inr None)"

text \<open>
  \<open>Mesh.calculate_mean_value\<close>. Dividing \<open>None\<close> raises TypeError. With no face both
  sums are the Python integer 0 and the division raises ZeroDivisionError; otherwise
  the operands are numpy floats, and a zero divisor gives nan or inf with a warning.
\<close>

datatype np_float = Float real | NanOrInf

definition calculate_mean_value :: "mesh \<Rightarrow> real list \<Rightarrow> error + np_float" where
  "calculate_mean_value m u =
     bind_err (calculate_total_value m u) (\<lambda>total.
       (case total of
          None \<Rightarrow> Inl TypeError
        | Some t \<Rightarrow>
            if areas m = [] then Inl ZeroDivisionError
            else if sum_list (areas m) = 0 then Inr NanOrInf
            else Inr (Float (t / sum_list (areas m)))))"

subsection \<open>The metrics in float64 arithmetic\<close>









section \<open>RectMesher\<close>

text \<open>
  \<open>np.linspace(start, stop, num)\<close>: \<open>num\<close> evenly spaced samples with both ends
  included; a negative \<open>num\<close> raises ValueError, and one sample is \<open>start\<close>.
\<close>

definition np_linspace :: "real \<Rightarrow> real \<Rightarrow> int \<Rightarrow> error + real list" where
  "np_linspace start stop num =
     (if num < 0 then Inl ValueError
      else if num = 1 then Inr [start]
      else Inr (map (\<lambda>i. start + real i * ((stop - start) / real_of_int (num - 1)))
                 [0 ..< nat num]))"

text \<open>\<open>range(n)\<close> for a Python integer: empty when \<open>n \<le> 0\<close>.\<close>

definition py_range :: "int \<Rightarrow> int list" where
  "py_range n = map int [0 ..< nat n]"

record rect_mesher =
  corners :: "point \<times> point"
  resolution :: "int \<times> int"

definition get_index :: "rect_mesher \<Rightarrow> int \<Rightarrow> int \<Rightarrow> int" where
  "get_index self i j = j * fst (resolution self) + i"

text \<open>The two faces appended for the grid cell \<open>(i, j)\<close>.\<close>

definition cell_faces :: "rect_mesher \<Rightarrow> int \<Rightarrow> int \<Rightarrow> face list" where
  "cell_faces self i j =
     [(get_index self i j, get_index self (i + 1) j, get_index self (i + 1) (j + 1)),
      (get_index self i j, get_index self (i + 1) (j + 1), get_index self i (j + 1))]"

definition grid_points :: "real list \<Rightarrow> real list \<Rightarrow> point list" where
  "grid_points x_range y_range = concat (map (\<lambda>y. map (\<lambda>x. (x, y)) x_range) y_range)"

definition grid_faces :: "rect_mesher \<Rightarrow> face list" where
  "grid_faces self =
     concat (map (\<lambda>i. concat (map (\<lambda>j. cell_faces self i j)
                                (py_range (snd (resolution self) - 1))))
               (py_range (fst (resolution self) - 1)))"

text \<open>
  \<open>RectMesher.mesh\<close>. \<open>get_boundary_from_points_faces\<close> belongs to \<open>utils.helper\<close>,
  whose code is not available: it is a parameter, as the triangle area is.
\<close>

definition RectMesher_mesh ::
  "(point list \<Rightarrow> real) \<Rightarrow> (point list \<Rightarrow> face list \<Rightarrow> segment list) \<Rightarrow> rect_mesher \<Rightarrow>
     error + mesh" where
  "RectMesher_mesh triangle_area get_boundary_from_points_faces self =
     bind_err (np_linspace (fst (fst (corners self))) (fst (snd (corners self)))
                 (fst (resolution self))) (\<lambda>x_range.
     bind_err (np_linspace (snd (fst (corners self))) (snd (snd (corners self)))
                 (snd (resolution self))) (\<lambda>y_range.
       (let pts = grid_points x_range y_range;
            fs = grid_faces self;
            bd = get_boundary_from_points_faces pts fs
        in Mesh_init triangle_area pts fs bd)))"

text \<open>
  Modelled from the spec: \<open>get_boundary_from_points_faces\<close> of \<open>utils.helper\<close> is
  missing from the sources. The spec gives its contract: the boundary is made of the
  edges that belong to exactly one face; an edge of two faces is interior.
\<close>

definition face_edges :: "face \<Rightarrow> segment list" where
  "face_edges f = (case f of (a, b, c) \<Rightarrow> [(a, b), (b, c), (c, a)])"

definition get_boundary_from_points_faces :: "point list \<Rightarrow> face list \<Rightarrow> segment list" where
  "get_boundary_from_points_faces pts fs =
     (let es = concat (map face_edges fs)
      in filter (\<lambda>e. count_list (map (\<lambda>(a, b). sorted_pair a b) es)
                        (sorted_pair (fst e) (snd e)) = 1) es)"

section \<open>HeatSolver\<close>

text \<open>
  Vectors and matrices are arrays of floats. The operations are numpy's on arrays of
  matching shape: \<open>+\<close> and \<open>*\<close> act entry by entry, \<open>@\<close> is the matrix-vector product.
\<close>

type_synonym vec = "real list"
type_synonym matrix = "real list list"

definition vec_add :: "vec \<Rightarrow> vec \<Rightarrow> vec" where
  "vec_add v w = map2 (+) v w"

definition vec_scale :: "vec \<Rightarrow> real \<Rightarrow> vec" where
  "vec_scale v s = map (\<lambda>x. x * s) v"

definition mat_add :: "matrix \<Rightarrow> matrix \<Rightarrow> matrix" where
  "mat_add A B = map2 vec_add A B"

definition mat_scale :: "matrix \<Rightarrow> real \<Rightarrow> matrix" where
  "mat_scale A s = map (\<lambda>row. vec_scale row s) A"

definition mat_vec :: "matrix \<Rightarrow> vec \<Rightarrow> vec" where
  "mat_vec A v = map (\<lambda>row. sum_list (map2 (*) row v)) A"

text \<open>
  The solver holds its matrices by reference, and \<open>solve\<close> updates an array in place:
  matrices live in a store, addressed by position. \<open>copy\<close> allocates a new array.
\<close>

type_synonym addr = nat
type_synonym store = "matrix list"

definition np_copy :: "store \<Rightarrow> addr \<Rightarrow> addr \<times> store" where
  "np_copy st a = (length st, st @ [st ! a])"

definition np_iadd :: "store \<Rightarrow> addr \<Rightarrow> matrix \<Rightarrow> store" where
  "np_iadd st a B = st[a := mat_add (st ! a) B]"

text \<open>
  The assembly functions and element kernels of \<open>utils.matrices\<close> and numpy's linear
  solver are collaborators whose code is not available; they are parameters.
  \<open>np.linalg.solve\<close> raises LinAlgError on a singular system.
\<close>

datatype kernel =
  calculate_element_load_vector
| calculate_element_boundary_mass_matrix
| calculate_element_boundary_load_vector

record collaborators =
  assemble_vector :: "point list \<Rightarrow> int list list \<Rightarrow> kernel \<Rightarrow> (point \<Rightarrow> real) \<Rightarrow> vec"
  assemble_matrix :: "point list \<Rightarrow> int list list \<Rightarrow> kernel \<Rightarrow> (point \<Rightarrow> real) \<Rightarrow> matrix"
  linalg_solve :: "matrix \<Rightarrow> vec \<Rightarrow> error + vec"

record heat_solver_result =
  t_values :: "real list"
  u_values :: "vec list"

record heat_solver =
  solver_points :: "point list"
  solver_faces :: "face list"
  solver_boundary :: "segment list"
  solver_M :: addr
  solver_K :: addr
  dt :: real
  num_iterations :: int
  result :: "heat_solver_result option"

type_synonym robin = "(point \<Rightarrow> real) \<times> (point \<Rightarrow> real) \<times> (point \<Rightarrow> real)"

text \<open>
  The time loop of \<open>solve\<close>, over the values of \<open>i\<close> still to come. The state is the
  current \<open>u\<close> and the two lists recorded so far.
\<close>

fun time_loop ::
  "collaborators \<Rightarrow> store \<Rightarrow> heat_solver \<Rightarrow> addr \<Rightarrow> vec \<Rightarrow> nat list \<Rightarrow>
     vec \<times> real list \<times> vec list \<Rightarrow> error + (vec \<times> real list \<times> vec list)" where
  "time_loop c st self K_temp b [] s = Inr s"
| "time_loop c st self K_temp b (i # rest) (u, ts, us) =
     (case linalg_solve c
             (mat_add (st ! solver_M self) (mat_scale (st ! K_temp) (dt self)))
             (vec_add (mat_vec (st ! solver_M self) u) (vec_scale b (dt self))) of
        Inl e \<Rightarrow> Inl e
      | Inr u' \<Rightarrow>
          time_loop c st self K_temp b rest (u', ts @ [dt self * real (i + 1)], us @ [u']))"

text \<open>
  \<open>HeatSolver.solve\<close>. It returns the outcome (the result, or the exception raised by
  the linear solver) together with the solver object and the store as the call leaves
  them. The progress lines it prints are left out.
\<close>

definition solve ::
  "collaborators \<Rightarrow> heat_solver \<Rightarrow> store \<Rightarrow> vec \<Rightarrow> robin option \<Rightarrow> (point \<Rightarrow> real) option \<Rightarrow>
     (error + heat_solver_result) \<times> heat_solver \<times> store" where
  "solve c self st u_initial robin_bc load_function =
     (let load_function' = (case load_function of Some f \<Rightarrow> f | None \<Rightarrow> (\<lambda>x. 0));
          b = assemble_vector c (solver_points self) (map face_list (solver_faces self))
                calculate_element_load_vector load_function';
          (K_temp, st1) = np_copy st (solver_K self);
          (st2, b2) =
            (case robin_bc of
               None \<Rightarrow> (st1, b)
             | Some (W, g_D, g_N) \<Rightarrow>
                 (let R = assemble_matrix c (solver_points self)
                            (map (\<lambda>(p, q). [p, q]) (solver_boundary self))
                            calculate_element_boundary_mass_matrix W;
                      r = assemble_vector c (solver_points self)
                            (map (\<lambda>(p, q). [p, q]) (solver_boundary self))
                            calculate_element_boundary_load_vector
                            (\<lambda>x. W x * g_D x + g_N x)
                  in (np_iadd st1 K_temp R, vec_add b r)))
      in case time_loop c st2 self K_temp b2 [0 ..< nat (num_iterations self)]
                (u_initial, [0], [u_initial]) of
           Inl e \<Rightarrow> (Inl e, self, st2)
         | Inr (u, ts, us) \<Rightarrow>
             (let res = \<lparr>t_values = ts, u_values = us\<rparr>
              in (Inr res, self\<lparr>result := Some res\<rparr>, st2)))"

text \<open>The system matrix and load vector a call of \<open>solve\<close> is specified to step with.\<close>

definition K_eff :: "collaborators \<Rightarrow> heat_solver \<Rightarrow> store \<Rightarrow> robin option \<Rightarrow> matrix" where
  "K_eff c self st robin_bc =
     (case robin_bc of
        None \<Rightarrow> st ! solver_K self
      | Some (W, g_D, g_N) \<Rightarrow>
          mat_add (st ! solver_K self)
            (assemble_matrix c (solver_points self)
               (map (\<lambda>(p, q). [p, q]) (solver_boundary self))
               calculate_element_boundary_mass_matrix W))"

definition b_eff ::
  "collaborators \<Rightarrow> heat_solver \<Rightarrow> robin option \<Rightarrow> (point \<Rightarrow> real) option \<Rightarrow> vec" where
  "b_eff c self robin_bc load_function =
     (let b = assemble_vector c (solver_points self) (map face_list (solver_faces self))
                calculate_element_load_vector
                (case load_function of Some f \<Rightarrow> f | None \<Rightarrow> (\<lambda>x. 0))
      in case robin_bc of
           None \<Rightarrow> b
         | Some (W, g_D, g_N) \<Rightarrow>
             vec_add b
               (assemble_vector c (solver_points self)
                  (map (\<lambda>(p, q). [p, q]) (solver_boundary self))
                  calculate_element_boundary_load_vector (\<lambda>x. W x * g_D x + g_N x)))"

text \<open>
  A linear solver for systems of one equation, and collaborators built on it whose
  assembled arrays are constant: an instance to run the solver on.
\<close>

definition solve_1x1 :: "matrix \<Rightarrow> vec \<Rightarrow> error + vec" where
  "solve_1x1 A y =
     (case (A, y) of
        ([[a]], [v]) \<Rightarrow> if a = 0 then Inl LinAlgError else Inr [v / a]
      | _ \<Rightarrow> Inl LinAlgError)"

definition unit_collaborators :: collaborators where
  "unit_collaborators =
     \<lparr>assemble_vector = (\<lambda>pts els k f. [1]), assemble_matrix = (\<lambda>pts els k f. [[1]]),
      linalg_solve = solve_1x1\<rparr>"

text \<open>
  What numpy's solver promises when it returns: the vector it returns solves the system.
\<close>

definition sound_solver :: "collaborators \<Rightarrow> bool" where
  "sound_solver c \<longleftrightarrow> (\<forall>A y x. linalg_solve c A y = Inr x \<longrightarrow> mat_vec A x = y)"

text \<open>
  A solver object on one vertex, with \<open>M\<close> at address 0 and \<open>K\<close> at address 1 of the
  store, and a Robin condition with constant coefficients.
\<close>

definition unit_solver :: heat_solver where
  "unit_solver =
     \<lparr>solver_points = [(0, 0)], solver_faces = [], solver_boundary = [], solver_M = 0,
      solver_K = 1, dt = 1, num_iterations = 2, result = None\<rparr>"

definition unit_store :: store where
  "unit_store = [[[1]], [[1]]]"

definition unit_robin :: robin where
  "unit_robin = ((\<lambda>x. 1), (\<lambda>x. 1), (\<lambda>x. 0))"

section \<open>Example meshes\<close>

text \<open>
  The unit square cut along a diagonal, and a mesh whose first face lists vertex 0
  twice, as the constructor builds them with the area formula above.
\<close>

definition square_mesh :: mesh where
  "square_mesh =
     \<lparr>points = [(0, 0), (1, 0), (1, 1), (0, 1)], faces = [(0, 1, 2), (0, 2, 3)],
      boundary = [(0, 1), (1, 2), (2, 3), (3, 0)], boundary_idxs = {0, 1, 2, 3},
      areas = [1 / 2, 1 / 2], edges = {(0, 1), (1, 2), (0, 2), (2, 3), (0, 3)},
      face_neighbors = None\<rparr>"

definition pinched_mesh :: mesh where
  "pinched_mesh =
     \<lparr>points = [(0, 0), (1, 0), (1, 1), (0, 1)], faces = [(0, 0, 1), (0, 2, 3)],
      boundary = [], boundary_idxs = {},
      areas = [0, 1 / 2], edges = {(0, 0), (0, 1), (0, 2), (2, 3), (0, 3)},
      face_neighbors = None\<rparr>"

section \<open>Edges\<close>


lemma upt_0_3: "[0 ..< 3] = [0, Suc 0, Suc (Suc 0)]"
  by (simp add: upt_rec)

lemma edges_foldl_acc:
  "foldl (\<lambda>all_edges f.
            foldl (\<lambda>acc i. insert (sorted_pair (face_at f i) (face_at f ((i + 1) mod 3))) acc)
              all_edges [0 ..< 3])
     A fs = A \<union> (\<Union>f\<in>set fs. sides_of f)"
proof (induction fs arbitrary: A)
  case Nil
  show ?case by simp
next
  case (Cons f fs)
  show ?case
    unfolding foldl_Cons Cons.IH
    by (auto simp: upt_0_3 sides_of_def numeral_2_eq_2)
qed

lemma get_all_edges_eq: "get_all_edges fs = (\<Union>f\<in>set fs. sides_of f)"
  unfolding get_all_edges_def edges_foldl_acc by simp

lemma face_at_simps:
  "face_at (a, b, c) 0 = a" "face_at (a, b, c) 1 = b" "face_at (a, b, c) 2 = c"
  "face_at (a, b, c) (Suc 0) = b" "face_at (a, b, c) (Suc (Suc 0)) = c"
  by (simp_all add: face_at_def face_list_def numeral_2_eq_2)

lemma sides_of_triple:
  "sides_of (a, b, c) = {sorted_pair a b, sorted_pair b c, sorted_pair c a}"
  by (simp add: sides_of_def face_at_simps)

lemma sorted_pair_commute: "sorted_pair x y = sorted_pair y x"
  by (simp add: sorted_pair_def)

lemma sorted_pair_ordered: "fst (sorted_pair x y) \<le> snd (sorted_pair x y)"
  by (simp add: sorted_pair_def)

lemma sorted_pair_ends: "{fst (sorted_pair x y), snd (sorted_pair x y)} = {x, y}"
  by (auto simp: sorted_pair_def)

lemma sides_of_reordering: "g \<in> reorderings f \<Longrightarrow> sides_of g = sides_of f"
proof (cases f)
  case (fields a b c)
  assume "g \<in> reorderings f"
  then have "g = (a, b, c) \<or> g = (a, c, b) \<or> g = (b, a, c) \<or> g = (b, c, a) \<or> g = (c, a, b) \<or> g = (c, b, a)"
    by (simp add: reorderings_def fields)
  then show ?thesis
    unfolding fields
    by (elim disjE) (simp_all add: sides_of_triple sorted_pair_commute [of b a] sorted_pair_commute [of c b] sorted_pair_commute [of a c] insert_commute)
qed

lemma ex_less_3: "(\<exists>i<3::nat. P i) \<longleftrightarrow> P 0 \<or> P (Suc 0) \<or> P (Suc (Suc 0))"
proof -
  have "{..<3::nat} = {0, Suc 0, Suc (Suc 0)}" by auto
  then show ?thesis by (metis (no_types) lessThan_iff insert_iff empty_iff)
qed

lemma sides_of_iff:
  "e \<in> sides_of f \<longleftrightarrow> (\<exists>i<3. e = sorted_pair (face_at f i) (face_at f ((i + 1) mod 3)))"
  unfolding ex_less_3 sides_of_def by (simp add: numeral_2_eq_2)

lemma edge_unique:
  assumes "e1 \<in> sides_of f" "e2 \<in> sides_of g" "{fst e1, snd e1} = {fst e2, snd e2}"
  shows "e1 = e2"
proof -
  from assms(1) have o1: "fst e1 \<le> snd e1" by (auto simp: sides_of_def sorted_pair_def)
  from assms(2) have o2: "fst e2 \<le> snd e2" by (auto simp: sides_of_def sorted_pair_def)
  from assms(3) o1 o2 have "fst e1 = fst e2 \<and> snd e1 = snd e2"
    by (auto simp: doubleton_eq_iff)
  then show ?thesis by (simp add: prod_eq_iff)
qed

lemma edges_reordered:
  assumes "list_all2 (\<lambda>f g. g \<in> reorderings f) fs gs"
  shows "get_all_edges gs = get_all_edges fs"
  using assms unfolding get_all_edges_eq
  by (induction rule: list_all2_induct) (auto simp: sides_of_reordering)


lemma Mesh_init_fields:
  assumes "Mesh_init area pts fs bd = Inr m"
  shows "points m = pts" "faces m = fs" "boundary m = bd" "edges m = get_all_edges fs"
    "face_neighbors m = None"
  using assms by (auto simp: Mesh_init_def split: sum.splits)

lemma side_of_sorted_pair:
  "{fst (sorted_pair (face_at f i) (face_at f ((i + 1) mod 3))),
    snd (sorted_pair (face_at f i) (face_at f ((i + 1) mod 3)))} = side f i"
  unfolding side_def by (rule sorted_pair_ends)

text \<open>
  Claim C4. For every mesh the constructor builds, \<open>edges\<close> holds each unordered pair
  of vertices at most once, every stored edge has its smaller index first, each of the
  three sides of every face is in \<open>edges\<close>, and every entry of \<open>edges\<close> is a side of
  some face. The set is the same for any mesh built from the same faces taken in
  another order, each with its three vertices in any internal order.
\<close>

theorem edges_invariant:
  assumes "Mesh_init area pts fs bd = Inr m"
  shows "(\<forall>e1\<in>edges m. \<forall>e2\<in>edges m. {fst e1, snd e1} = {fst e2, snd e2} \<longrightarrow> e1 = e2)
    \<and> (\<forall>e\<in>edges m. fst e \<le> snd e)
    \<and> (\<forall>f\<in>set fs. \<forall>i<3. \<exists>e\<in>edges m. {fst e, snd e} = side f i)
    \<and> (\<forall>e\<in>edges m. \<exists>f\<in>set fs. \<exists>i<3. {fst e, snd e} = side f i)
    \<and> (\<forall>gs fs' area' pts' bd' m'.
          list_all2 (\<lambda>f g. g \<in> reorderings f) fs gs \<and> mset fs' = mset gs
            \<and> Mesh_init area' pts' fs' bd' = Inr m'
          \<longrightarrow> edges m' = edges m)"
proof -
  have E: "edges m = (\<Union>f\<in>set fs. sides_of f)"
    using Mesh_init_fields(4) [OF assms] by (simp add: get_all_edges_eq)
  have uniq: "\<forall>e1\<in>edges m. \<forall>e2\<in>edges m. {fst e1, snd e1} = {fst e2, snd e2} \<longrightarrow> e1 = e2"
    unfolding E by (blast intro: edge_unique)
  have ordered: "\<forall>e\<in>edges m. fst e \<le> snd e"
  proof
    fix e assume "e \<in> edges m"
    then obtain x y where "e = sorted_pair x y" unfolding E sides_of_def by blast
    then show "fst e \<le> snd e" by (simp add: sorted_pair_ordered)
  qed
  have complete: "\<forall>f\<in>set fs. \<forall>i<3. \<exists>e\<in>edges m. {fst e, snd e} = side f i"
  proof (intro ballI allI impI)
    fix f and i :: nat
    assume f: "f \<in> set fs" and i: "i < 3"
    let ?e = "sorted_pair (face_at f i) (face_at f ((i + 1) mod 3))"
    have "?e \<in> sides_of f" using i by (auto simp: sides_of_iff)
    then have "?e \<in> edges m" using f unfolding E by blast
    then show "\<exists>e\<in>edges m. {fst e, snd e} = side f i"
      using side_of_sorted_pair [of f i] by blast
  qed
  have sound: "\<forall>e\<in>edges m. \<exists>f\<in>set fs. \<exists>i<3. {fst e, snd e} = side f i"
  proof
    fix e assume "e \<in> edges m"
    then obtain f where f: "f \<in> set fs" and "e \<in> sides_of f" unfolding E by blast
    then obtain i where "i < 3" and "e = sorted_pair (face_at f i) (face_at f ((i + 1) mod 3))"
      by (auto simp: sides_of_iff)
    then show "\<exists>f\<in>set fs. \<exists>i<3. {fst e, snd e} = side f i"
      using f side_of_sorted_pair [of f i] by blast
  qed
  have order: "\<forall>gs fs' area' pts' bd' m'.
          list_all2 (\<lambda>f g. g \<in> reorderings f) fs gs \<and> mset fs' = mset gs
            \<and> Mesh_init area' pts' fs' bd' = Inr m'
          \<longrightarrow> edges m' = edges m"
  proof (intro allI impI, elim conjE)
    fix gs fs' :: "face list" and area' pts' bd' m'
    assume r: "list_all2 (\<lambda>f g. g \<in> reorderings f) fs gs" and p: "mset fs' = mset gs"
      and i: "Mesh_init area' pts' fs' bd' = Inr m'"
    have "set fs' = set gs" using p by (rule mset_eq_setD)
    then have "get_all_edges fs' = get_all_edges gs" by (simp add: get_all_edges_eq)
    also have "\<dots> = get_all_edges fs" using r by (rule edges_reordered)
    finally show "edges m' = edges m"
      using Mesh_init_fields(4) [OF i] Mesh_init_fields(4) [OF assms] by simp
  qed
  from uniq ordered complete sound order show ?thesis by blast
qed

theorem edges_invariant_witness:
  "\<exists>m. Mesh_init calculate_triangle_area [(0, 0), (1, 0), (1, 1), (0, 1)] [(0, 1, 2), (0, 2, 3)]
          [(0, 1), (1, 2), (2, 3), (3, 0)] = Inr m
       \<and> edges m = {(0, 1), (1, 2), (0, 2), (2, 3), (0, 3)}
       \<and> (\<exists>e\<in>edges m. {fst e, snd e} = side (0, 2, 3) 2)"
proof -
  define m where "m = \<lparr>points = [(0, 0), (1, 0), (1, 1), (0, 1 :: real)], faces = [(0, 1, 2), (0, 2, 3)],
     boundary = [(0, 1), (1, 2), (2, 3), (3, 0)], boundary_idxs = {0, 1, 2, 3},
     areas = [1 / 2, 1 / 2], edges = get_all_edges [(0, 1, 2), (0, 2, 3)], face_neighbors = None\<rparr>"
  have init: "Mesh_init calculate_triangle_area [(0, 0), (1, 0), (1, 1), (0, 1)] [(0, 1, 2), (0, 2, 3)]
          [(0, 1), (1, 2), (2, 3), (3, 0)] = Inr m"
    by (auto simp: Mesh_init_def np_take_def face_list_def np_index_def calculate_triangle_area_def m_def)
  have e: "edges m = {(0, 1), (1, 2), (0, 2), (2, 3), (0, 3)}"
    by (auto simp: m_def get_all_edges_eq sides_of_triple sorted_pair_def)
  have "\<exists>e\<in>edges m. {fst e, snd e} = side (0, 2, 3) 2"
    using edges_invariant [OF init] by simp
  with init e show ?thesis by blast
qed

section \<open>Construction\<close>

lemma np_index_eq:
  "np_index xs i = (if valid_index (length xs) i then Inr (xs ! position (length xs) i) else Inl IndexError)"
  by (auto simp: np_index_def valid_index_def position_def)

lemma collect_Inr: "(\<And>x. x \<in> set xs \<Longrightarrow> g x = Inr (h x)) \<Longrightarrow> collect g xs = Inr (map h xs)"
  by (induction xs) simp_all

lemma collect_Inl:
  "(\<And>x. x \<in> set xs \<Longrightarrow> g x = Inr (h x) \<or> g x = Inl e) \<Longrightarrow> \<exists>x\<in>set xs. g x = Inl e \<Longrightarrow>
     collect g xs = Inl e"
proof (induction xs)
  case Nil
  then show ?case by simp
next
  case (Cons x xs)
  show ?case
  proof (cases "g x")
    case (Inl e')
    then show ?thesis using Cons.prems(1) [of x] by simp
  next
    case (Inr y)
    then have "\<exists>x\<in>set xs. g x = Inl e" using Cons.prems(2) by auto
    then have "collect g xs = Inl e" using Cons.IH Cons.prems(1) by simp
    then show ?thesis using Inr by simp
  qed
qed

lemma np_take_eq:
  "np_take arr f =
     (if \<forall>v\<in>set (face_list f). valid_index (length arr) v then Inr (taken arr f) else Inl IndexError)"
proof (cases "\<forall>v\<in>set (face_list f). valid_index (length arr) v")
  case True
  then have "collect (np_index arr) (face_list f) = Inr (map (\<lambda>v. arr ! position (length arr) v) (face_list f))"
    by (intro collect_Inr) (simp add: np_index_eq)
  then show ?thesis using True by (simp add: np_take_def taken_def)
next
  case False
  then have "collect (np_index arr) (face_list f) = Inl IndexError"
    by (intro collect_Inl [where h = "\<lambda>v. arr ! position (length arr) v"]) (auto simp: np_index_eq)
  then show ?thesis using False by (simp add: np_take_def)
qed

lemma Mesh_init_eq:
  "Mesh_init area pts fs bd =
     (if valid_faces (length pts) fs then
        Inr \<lparr>points = pts, faces = fs, boundary = bd,
             boundary_idxs = set (concat (map (\<lambda>(a, b). [a, b]) bd)),
             areas = map (\<lambda>f. area (taken pts f)) fs, edges = get_all_edges fs,
             face_neighbors = None\<rparr>
      else Inl IndexError)"
proof (cases "valid_faces (length pts) fs")
  case True
  then have "collect (\<lambda>f. map_sum id area (np_take pts f)) fs = Inr (map (\<lambda>f. area (taken pts f)) fs)"
    by (intro collect_Inr) (simp add: np_take_eq valid_faces_def)
  then show ?thesis using True by (simp add: Mesh_init_def)
next
  case False
  then have "collect (\<lambda>f. map_sum id area (np_take pts f)) fs = Inl IndexError"
    by (intro collect_Inl [where h = "\<lambda>f. area (taken pts f)"]) (auto simp: np_take_eq valid_faces_def)
  then show ?thesis using False by (simp add: Mesh_init_def)
qed

text \<open>
  Claim C7, as amended. The constructor makes no test of the face areas: when every
  vertex index of every face is one numpy accepts for \<open>points\<close>, the mesh is built and
  the area the helper returns for each face is stored, whatever its sign; the only input
  rejected is one with a vertex index out of range, by the IndexError of the indexing.
\<close>

theorem Mesh_init_no_area_check:
  "(valid_faces (length pts) fs \<longrightarrow>
      (\<exists>m. Mesh_init area pts fs bd = Inr m \<and> faces m = fs
           \<and> areas m = map (\<lambda>f. area (taken pts f)) fs))
   \<and> (\<not> valid_faces (length pts) fs \<longrightarrow> Mesh_init area pts fs bd = Inl IndexError)"
  by (simp add: Mesh_init_eq)

theorem Mesh_init_no_area_check_witness:
  "valid_faces (length ([(0, 0), (1, 0), (2, 0)] :: point list)) [(0, 1, 2)]
   \<and> (\<exists>m. Mesh_init calculate_triangle_area [(0, 0), (1, 0), (2, 0)] [(0, 1, 2)] [] = Inr m
          \<and> faces m = [(0, 1, 2)] \<and> areas m = [0])
   \<and> \<not> valid_faces (length ([(0, 0), (1, 0), (2, 0)] :: point list)) [(0, 1, 3)]
   \<and> Mesh_init calculate_triangle_area [(0, 0), (1, 0), (2, 0)] [(0, 1, 3)] [] = Inl IndexError"
proof -
  have v: "valid_faces (length ([(0, 0), (1, 0), (2, 0)] :: point list)) [(0, 1, 2)]"
    by (simp add: valid_faces_def face_list_def valid_index_def)
  have n: "\<not> valid_faces (length ([(0, 0), (1, 0), (2, 0)] :: point list)) [(0, 1, 3)]"
    by (simp add: valid_faces_def face_list_def valid_index_def)
  have a: "map (\<lambda>f. calculate_triangle_area (taken [(0, 0), (1, 0), (2, 0)] f)) [(0, 1, 2)] = [0]"
    by (simp add: taken_def face_list_def position_def calculate_triangle_area_def)
  show ?thesis
    using v n a
      Mesh_init_no_area_check [of "[(0, 0), (1, 0), (2, 0)]" "[(0, 1, 2)]" calculate_triangle_area "[]"]
      Mesh_init_no_area_check [of "[(0, 0), (1, 0), (2, 0)]" "[(0, 1, 3)]" calculate_triangle_area "[]"]
    by simp
qed

text \<open>
  A face on three collinear points has area zero, and the constructor builds the mesh
  with that face in it.
\<close>

theorem degenerate_face_accepted:
  "calculate_triangle_area (taken [(0, 0), (1, 0), (2, 0)] (0, 1, 2)) = 0
   \<and> Mesh_init calculate_triangle_area [(0, 0), (1, 0), (2, 0)] [(0, 1, 2)] [(0, 1), (1, 2), (2, 0)] =
       Inr \<lparr>points = [(0, 0), (1, 0), (2, 0)], faces = [(0, 1, 2)],
            boundary = [(0, 1), (1, 2), (2, 0)], boundary_idxs = {0, 1, 2}, areas = [0],
            edges = {(0, 1), (1, 2), (0, 2)}, face_neighbors = None\<rparr>"
  by (auto simp: Mesh_init_def np_take_def np_index_def taken_def face_list_def position_def
      calculate_triangle_area_def get_all_edges_eq sides_of_triple sorted_pair_def)

section \<open>Metrics\<close>




lemma total_face_valued:
  assumes "length (areas m) = length (faces m)" "length u = length (faces m)"
  shows "calculate_total_value m u =
           Inr (Some (sum_list (map (\<lambda>i. areas m ! i * u ! i) [0 ..< length (faces m)])))"
proof -
  have "collect (\<lambda>face_idx.
              bind_err (np_index (areas m) (int face_idx)) (\<lambda>a.
              bind_err (np_index u (int face_idx)) (\<lambda>x. Inr (a * x))))
            [0 ..< length (faces m)] = Inr (map (\<lambda>i. areas m ! i * u ! i) [0 ..< length (faces m)])"
    using assms by (intro collect_Inr) (simp add: np_index_eq valid_index_def position_def bind_err_def)
  then show ?thesis using assms by (simp add: calculate_total_value_def bind_err_def)
qed

lemma total_vertex_valued:
  assumes "length (areas m) = length (faces m)" "valid_faces (length (points m)) (faces m)"
    "length u \<noteq> length (faces m)" "length u = length (points m)"
  shows "calculate_total_value m u =
           Inr (Some (sum_list (map (\<lambda>i. areas m ! i * np_mean (taken u (faces m ! i)))
                                  [0 ..< length (faces m)])))"
proof -
  have "collect (\<lambda>face_idx.
              bind_err (np_index (areas m) (int face_idx)) (\<lambda>a.
              bind_err (np_index (faces m) (int face_idx)) (\<lambda>f.
              bind_err (np_take u f) (\<lambda>xs. Inr (a * np_mean xs)))))
            [0 ..< length (faces m)]
        = Inr (map (\<lambda>i. areas m ! i * np_mean (taken u (faces m ! i))) [0 ..< length (faces m)])"
    using assms
    by (intro collect_Inr)
      (auto simp: np_index_eq np_take_eq valid_index_def position_def bind_err_def valid_faces_def)
  then show ?thesis using assms by (simp add: calculate_total_value_def bind_err_def)
qed

lemma total_neither:
  assumes "length u \<noteq> length (faces m)" "length u \<noteq> length (points m)"
  shows "calculate_total_value m u = Inr None"
  using assms by (simp add: calculate_total_value_def)

lemma Mesh_init_shape:
  assumes "Mesh_init area pts fs bd = Inr m"
  shows "length (areas m) = length (faces m)" "valid_faces (length (points m)) (faces m)"
  using assms by (auto simp: Mesh_init_eq split: if_splits)

























text \<open>
  Claim C10. \<open>calculate_total_value\<close> looks at the length of \<open>u\<close> only. A length equal to
  the number of faces gives the area-weighted sum over faces, also on a mesh with as
  many faces as points; otherwise a length equal to the number of points gives the
  area-weighted sum of the vertex means; any other length gives \<open>None\<close> with no error,
  and \<open>calculate_mean_value\<close> then fails with the TypeError of dividing \<open>None\<close>.
\<close>

theorem total_value_dispatch:
  assumes "Mesh_init area pts fs bd = Inr m"
  shows "(length u = length (faces m) \<longrightarrow>
            calculate_total_value m u =
              Inr (Some (sum_list (map (\<lambda>i. areas m ! i * u ! i) [0 ..< length (faces m)]))))
    \<and> (length u \<noteq> length (faces m) \<and> length u = length (points m) \<longrightarrow>
            calculate_total_value m u =
              Inr (Some (sum_list (map (\<lambda>i. areas m ! i * np_mean (taken u (faces m ! i)))
                                     [0 ..< length (faces m)]))))
    \<and> (length u \<noteq> length (faces m) \<and> length u \<noteq> length (points m) \<longrightarrow>
            calculate_total_value m u = Inr None \<and> calculate_mean_value m u = Inl TypeError)"
proof -
  note shape = Mesh_init_shape [OF assms]
  have "calculate_mean_value m u = Inl TypeError" if "calculate_total_value m u = Inr None"
    using that by (simp add: calculate_mean_value_def bind_err_def)
  then show ?thesis
    using total_face_valued [OF shape(1), of u] total_vertex_valued [OF shape, of u]
      total_neither [of u m]
    by blast
qed

theorem total_value_dispatch_witness:
  "\<exists>m. Mesh_init calculate_triangle_area [(0, 0), (2, 0), (0, 2), (1, 0)]
          [(0, 1, 2), (0, 3, 2), (3, 1, 2), (0, 3, 2)] [] = Inr m
       \<and> length (faces m) = length (points m)
       \<and> calculate_total_value m [1, 0, 0, 0] = Inr (Some 2)
       \<and> calculate_total_value m [1, 0] = Inr None
       \<and> calculate_mean_value m [1, 0] = Inl TypeError"
proof -
  define m where "m = \<lparr>points = [(0, 0), (2, 0), (0, 2), (1, 0 :: real)],
     faces = [(0, 1, 2), (0, 3, 2), (3, 1, 2), (0, 3, 2)],
     boundary = [], boundary_idxs = {},
     areas = [2, 1, 1, 1], edges = get_all_edges [(0, 1, 2), (0, 3, 2), (3, 1, 2), (0, 3, 2)],
     face_neighbors = None\<rparr>"
  have init: "Mesh_init calculate_triangle_area [(0, 0), (2, 0), (0, 2), (1, 0)]
          [(0, 1, 2), (0, 3, 2), (3, 1, 2), (0, 3, 2)] [] = Inr m"
    by (auto simp: Mesh_init_def np_take_def face_list_def np_index_def calculate_triangle_area_def m_def)
  have len: "length (faces m) = length (points m)" by (simp add: m_def)
  have "calculate_total_value m [1, 0, 0, 0] = Inr (Some 2)"
    using total_value_dispatch [OF init, of "[1, 0, 0, 0]"]
    by (simp add: m_def upt_rec)
  moreover have "calculate_total_value m [1, 0] = Inr None \<and> calculate_mean_value m [1, 0] = Inl TypeError"
    using total_value_dispatch [OF init, of "[1, 0]"] by (simp add: m_def)
  ultimately show ?thesis using init len by blast
qed

section \<open>Face adjacency\<close>

lemma count_list_concat: "count_list (concat xss) x = sum_list (map (\<lambda>xs. count_list xs x) xss)"
  by (induction xss) simp_all

lemma count_list_const_map: "count_list (map (\<lambda>_. r) xs) x = (if x = r then length xs else 0)"
  by (induction xs) auto

lemma count_list_distinct: "distinct ys \<Longrightarrow> count_list ys x = (if x \<in> set ys then 1 else 0)"
  by (induction ys) auto

lemma length_filter_eq: "length (filter (\<lambda>x. x = v) xs) = count_list xs v"
  by (induction xs) simp_all

lemma count_rows_enumerate:
  "count_list (concat (map (\<lambda>(r, f). map (\<lambda>_. r) (filter (\<lambda>x. x = v) (face_list f))) (enumerate k fs))) B
     = (if k \<le> B \<and> B < k + length fs then count_list (face_list (fs ! (B - k))) v else 0)"
proof (induction fs arbitrary: k)
  case Nil
  show ?case by simp
next
  case (Cons f fs)
  have IH: "count_list (concat (map (\<lambda>(r, f). map (\<lambda>_. r) (filter (\<lambda>x. x = v) (face_list f)))
                (enumerate (Suc k) fs))) B
     = (if Suc k \<le> B \<and> B < Suc k + length fs then count_list (face_list (fs ! (B - Suc k))) v else 0)"
    by (rule Cons.IH)
  show ?case
  proof (cases "B = k")
    case True
    show ?thesis using IH unfolding True by (simp add: count_list_const_map length_filter_eq)
  next
    case False
    then show ?thesis
      by (auto simp: IH count_list_const_map length_filter_eq nth_Cons')
  qed
qed

lemma count_np_where_rows:
  "count_list (np_where_rows fs v) B = (if B < length fs then count_list (face_list (fs ! B)) v else 0)"
  unfolding np_where_rows_def count_rows_enumerate by simp

lemma collected_rows:
  "foldl (\<lambda>acc neighbor_idx. acc @ np_where_rows fs neighbor_idx) l0 vs
     = l0 @ concat (map (np_where_rows fs) vs)"
  by (induction vs arbitrary: l0) simp_all

lemma count_collected:
  "count_list (concat (map (np_where_rows fs) (face_list f))) B
     = (if B < length fs then overlap f (fs ! B) else 0)"
  by (simp add: count_list_concat count_np_where_rows overlap_def o_def)

lemma neighbor_list_iff:
  "B \<in> set (neighbor_list fs f) \<longleftrightarrow> B < length fs \<and> overlap f (fs ! B) = 2"
proof -
  let ?l = "concat (map (np_where_rows fs) (face_list f))"
  have "B \<in> set (neighbor_list fs f) \<longleftrightarrow> B \<in> set ?l \<and> count_list ?l B = 2"
    by (simp add: neighbor_list_def collected_rows Let_def)
  also have "\<dots> \<longleftrightarrow> count_list ?l B = 2"
    by (metis count_list_0_iff zero_neq_numeral)
  also have "\<dots> \<longleftrightarrow> B < length fs \<and> overlap f (fs ! B) = 2"
    by (simp add: count_collected)
  finally show ?thesis .
qed

lemma overlap_Cons:
  "sum_list (map (count_list (y # ys)) xs) = count_list xs y + sum_list (map (count_list ys) xs)"
  by (induction xs) auto

lemma overlap_lists_commute:
  "sum_list (map (count_list ys) xs) = sum_list (map (count_list xs) ys)"
  by (induction xs) (simp_all add: overlap_Cons del: count_list.simps(2))

lemma overlap_commute: "overlap f g = overlap g f"
  unfolding overlap_def by (rule overlap_lists_commute)

lemma overlap_self: "overlap f f \<noteq> 2"
  by (cases f) (auto simp: overlap_def face_list_def)

lemma overlap_lists_distinct:
  "distinct xs \<Longrightarrow> distinct ys \<Longrightarrow> sum_list (map (count_list ys) xs) = card (set xs \<inter> set ys)"
proof (induction xs)
  case Nil
  show ?case by simp
next
  case (Cons x xs)
  have c: "count_list ys x = (if x \<in> set ys then 1 else 0)"
    using Cons.prems(2) by (rule count_list_distinct)
  have "card (set (x # xs) \<inter> set ys) = (if x \<in> set ys then 1 else 0) + card (set xs \<inter> set ys)"
    using Cons.prems(1) by (auto simp: Int_insert_left)
  then show ?case using Cons c by simp
qed

lemma overlap_distinct:
  "distinct (face_list f) \<Longrightarrow> distinct (face_list g) \<Longrightarrow> overlap f g = card (shared_vertices f g)"
  unfolding overlap_def shared_vertices_def by (rule overlap_lists_distinct)


lemma neighbors_step_fresh:
  "d i = Some [] \<Longrightarrow> neighbors_step fs d (i, f) = Inr (d(i \<mapsto> neighbor_list fs f))"
  by (simp add: neighbors_step_def neighbor_list_def Let_def)

lemma neighbors_loop_result:
  assumes "distinct (map fst ps)" "\<And>p. p \<in> set ps \<Longrightarrow> d (fst p) = Some []"
  shows "\<exists>d'. neighbors_loop fs d ps = Inr d'
           \<and> (\<forall>k. d' k = (case map_of ps k of Some f \<Rightarrow> Some (neighbor_list fs f) | None \<Rightarrow> d k))"
  using assms
proof (induction ps arbitrary: d)
  case Nil
  show ?case by simp
next
  case (Cons p ps)
  obtain i f where p: "p = (i, f)" by (cases p)
  let ?d1 = "d(i \<mapsto> neighbor_list fs f)"
  have step: "neighbors_step fs d p = Inr ?d1"
    unfolding p using Cons.prems(2) [of p] by (intro neighbors_step_fresh) (simp add: p)
  have fresh: "i \<notin> fst ` set ps" using Cons.prems(1) by (simp add: p)
  have "?d1 (fst q) = Some []" if "q \<in> set ps" for q
    using that fresh Cons.prems(2) [of q] by force
  moreover have "distinct (map fst ps)" using Cons.prems(1) by simp
  ultimately obtain d' where loop: "neighbors_loop fs ?d1 ps = Inr d'"
    and d': "\<forall>k. d' k = (case map_of ps k of Some g \<Rightarrow> Some (neighbor_list fs g) | None \<Rightarrow> ?d1 k)"
    using Cons.IH [of ?d1] by blast
  have "map_of ps i = None" using fresh by (simp add: map_of_eq_None_iff)
  then have "\<forall>k. d' k = (case map_of (p # ps) k of Some g \<Rightarrow> Some (neighbor_list fs g) | None \<Rightarrow> d k)"
    using d' by (auto simp: p split: option.splits)
  then show ?case using step loop by simp
qed

lemma map_of_enumerate: "map_of (enumerate 0 fs) k = (if k < length fs then Some (fs ! k) else None)"
proof (cases "k < length fs")
  case True
  then show ?thesis
    using map_of_zip_nth [of "[0 ..< length fs]" fs k] by (simp add: enumerate_eq_zip)
next
  case False
  then have "k \<notin> fst ` set (enumerate 0 fs)"
    by (auto simp: enumerate_eq_zip dest: set_zip_leftD)
  then show ?thesis using False by (simp add: map_of_eq_None_iff)
qed

lemma map_of_const:
  "map_of (map (\<lambda>face_idx. (face_idx, v)) xs) k = (if k \<in> set xs then Some v else None)"
  by (induction xs) auto

lemma initial_dict:
  "map_of (map (\<lambda>face_idx. (face_idx, [])) [0 ..< n]) k = (if k < n then Some [] else None)"
  by (simp add: map_of_const)

lemma calculate_face_neighbors_eq:
  "\<exists>d. calculate_face_neighbors m = Inr (m\<lparr>face_neighbors := Some d\<rparr>, d)
       \<and> (\<forall>k. d k = (if k < length (faces m) then Some (neighbor_list (faces m) (faces m ! k)) else None))"
proof -
  let ?d0 = "map_of (map (\<lambda>face_idx. (face_idx, [])) [0 ..< length (faces m)])"
  have "distinct (map fst (enumerate 0 (faces m)))" by simp
  moreover have "?d0 (fst p) = Some []" if "p \<in> set (enumerate 0 (faces m))" for p
  proof -
    obtain i f where "p = (i, f)" by (cases p)
    then have "i \<in> set [0 ..< length (faces m)]"
      using that by (auto simp: enumerate_eq_zip dest: set_zip_leftD)
    then show ?thesis using \<open>p = (i, f)\<close> by (simp add: initial_dict)
  qed
  ultimately obtain d where loop: "neighbors_loop (faces m) ?d0 (enumerate 0 (faces m)) = Inr d"
    and d: "\<forall>k. d k = (case map_of (enumerate 0 (faces m)) k of
                Some f \<Rightarrow> Some (neighbor_list (faces m) f) | None \<Rightarrow> ?d0 k)"
    using neighbors_loop_result [of "enumerate 0 (faces m)" ?d0 "faces m"] by blast
  have "\<forall>k. d k = (if k < length (faces m) then Some (neighbor_list (faces m) (faces m ! k)) else None)"
    using d by (simp add: map_of_enumerate initial_dict)
  then show ?thesis using loop by (simp add: calculate_face_neighbors_def bind_err_def)
qed

lemma neighbors_of_eq:
  "neighbors_of m A = (if A < length (faces m) then neighbor_list (faces m) (faces m ! A) else [])"
  using calculate_face_neighbors_eq [of m] by (auto simp: neighbors_of_def)

lemma neighbors_of_iff:
  "B \<in> set (neighbors_of m A) \<longleftrightarrow>
     A < length (faces m) \<and> B < length (faces m) \<and> overlap (faces m ! A) (faces m ! B) = 2"
  by (simp add: neighbors_of_eq neighbor_list_iff)

text \<open>
  Claim C5, as amended. \<open>calculate_face_neighbors\<close> always returns, with one list for
  each face index. The relation it computes is irreflexive and symmetric on every
  mesh, and on a mesh whose faces each list three different vertex indices, face \<open>B\<close>
  is among the neighbours of face \<open>A\<close> exactly when the two share exactly two vertices.
\<close>

theorem face_neighbors_relation:
  "(\<exists>d. calculate_face_neighbors m = Inr (m\<lparr>face_neighbors := Some d\<rparr>, d)
        \<and> dom d = {..< length (faces m)})
   \<and> (\<forall>A. A \<notin> set (neighbors_of m A))
   \<and> (\<forall>A B. B \<in> set (neighbors_of m A) \<longleftrightarrow> A \<in> set (neighbors_of m B))
   \<and> ((\<forall>f\<in>set (faces m). distinct (face_list f)) \<longrightarrow>
        (\<forall>A<length (faces m). \<forall>B<length (faces m).
           B \<in> set (neighbors_of m A) \<longleftrightarrow>
             card (shared_vertices (faces m ! A) (faces m ! B)) = 2))"
proof -
  obtain d where call: "calculate_face_neighbors m = Inr (m\<lparr>face_neighbors := Some d\<rparr>, d)"
    and d: "\<forall>k. d k = (if k < length (faces m) then Some (neighbor_list (faces m) (faces m ! k)) else None)"
    using calculate_face_neighbors_eq [of m] by blast
  have "dom d = {..< length (faces m)}" using d by (auto simp: dom_def)
  then have returns: "\<exists>d. calculate_face_neighbors m = Inr (m\<lparr>face_neighbors := Some d\<rparr>, d)
        \<and> dom d = {..< length (faces m)}"
    using call by blast
  have irreflexive: "\<forall>A. A \<notin> set (neighbors_of m A)"
    by (simp add: neighbors_of_iff overlap_self)
  have symmetric: "\<forall>A B. B \<in> set (neighbors_of m A) \<longleftrightarrow> A \<in> set (neighbors_of m B)"
    using overlap_commute by (auto simp: neighbors_of_iff)
  have shared: "\<forall>A<length (faces m). \<forall>B<length (faces m).
           B \<in> set (neighbors_of m A) \<longleftrightarrow> card (shared_vertices (faces m ! A) (faces m ! B)) = 2"
    if "\<forall>f\<in>set (faces m). distinct (face_list f)"
    using that by (simp add: neighbors_of_iff overlap_distinct)
  from returns irreflexive symmetric shared show ?thesis by blast
qed

lemma example_neighbor_lists:
  "neighbor_list [(0, 1, 2), (0, 2, 3)] (0, 1, 2) = [1, 1]"
  "neighbor_list [(0, 1, 2), (0, 2, 3)] (0, 2, 3) = [0, 0]"
  "neighbor_list [(0, 0, 1), (0, 2, 3)] (0, 0, 1) = [1, 1]"
  by (simp_all add: neighbor_list_def np_where_rows_def face_list_def enumerate_eq_zip upt_rec Let_def)

theorem face_neighbors_relation_witness:
  "Mesh_init calculate_triangle_area [(0, 0), (1, 0), (1, 1), (0, 1)] [(0, 1, 2), (0, 2, 3)]
      [(0, 1), (1, 2), (2, 3), (3, 0)] = Inr square_mesh
   \<and> neighbors_of square_mesh 0 = [1, 1] \<and> neighbors_of square_mesh 1 = [0, 0]
   \<and> 0 \<notin> set (neighbors_of square_mesh 0)
   \<and> card (shared_vertices (faces square_mesh ! 0) (faces square_mesh ! 1)) = 2"
proof -
  have init: "Mesh_init calculate_triangle_area [(0, 0), (1, 0), (1, 1), (0, 1)] [(0, 1, 2), (0, 2, 3)]
      [(0, 1), (1, 2), (2, 3), (3, 0)] = Inr square_mesh"
    by (auto simp: Mesh_init_def np_take_def face_list_def np_index_def calculate_triangle_area_def
        square_mesh_def get_all_edges_eq sides_of_triple sorted_pair_def)
  have n: "neighbors_of square_mesh 0 = [1, 1] \<and> neighbors_of square_mesh 1 = [0, 0]"
    by (simp add: neighbors_of_eq square_mesh_def example_neighbor_lists)
  have dist: "\<forall>f\<in>set (faces square_mesh). distinct (face_list f)"
    by (simp add: square_mesh_def face_list_def)
  have len: "0 < length (faces square_mesh)" "1 < length (faces square_mesh)"
    by (simp_all add: square_mesh_def)
  note rel = face_neighbors_relation [of square_mesh]
  have irr: "0 \<notin> set (neighbors_of square_mesh 0)" using rel by blast
  have "1 \<in> set (neighbors_of square_mesh 0) \<longleftrightarrow>
          card (shared_vertices (faces square_mesh ! 0) (faces square_mesh ! 1)) = 2"
    using rel dist len by blast
  then have "card (shared_vertices (faces square_mesh ! 0) (faces square_mesh ! 1)) = 2"
    using n by simp
  with init n irr show ?thesis by blast
qed


text \<open>
  A face that lists a vertex twice is collected twice for a face it meets in that one
  vertex: the two faces are reported as neighbours and share a single vertex.
\<close>

theorem repeated_vertex_neighbors:
  "Mesh_init calculate_triangle_area [(0, 0), (1, 0), (1, 1), (0, 1)] [(0, 0, 1), (0, 2, 3)] []
      = Inr pinched_mesh
   \<and> neighbors_of pinched_mesh 0 = [1, 1]
   \<and> card (shared_vertices (faces pinched_mesh ! 0) (faces pinched_mesh ! 1)) = 1"
proof -
  have init: "Mesh_init calculate_triangle_area [(0, 0), (1, 0), (1, 1), (0, 1)] [(0, 0, 1), (0, 2, 3)] []
      = Inr pinched_mesh"
    by (auto simp: Mesh_init_def np_take_def face_list_def np_index_def calculate_triangle_area_def
        pinched_mesh_def get_all_edges_eq sides_of_triple sorted_pair_def)
  have n: "neighbors_of pinched_mesh 0 = [1, 1]"
    by (simp add: neighbors_of_eq pinched_mesh_def example_neighbor_lists)
  have "shared_vertices (faces pinched_mesh ! 0) (faces pinched_mesh ! 1) = {0}"
    by (auto simp: pinched_mesh_def shared_vertices_def face_list_def)
  then have "card (shared_vertices (faces pinched_mesh ! 0) (faces pinched_mesh ! 1)) = 1" by simp
  with init n show ?thesis by blast
qed

section \<open>RectMesher\<close>

lemma np_linspace_length:
  "0 \<le> num \<Longrightarrow> \<exists>xs. np_linspace start stop num = Inr xs \<and> length xs = nat num"
  by (auto simp: np_linspace_def)

lemma np_linspace_negative: "num < 0 \<Longrightarrow> np_linspace start stop num = Inl ValueError"
  by (simp add: np_linspace_def)

lemma length_concat_const:
  "(\<And>x. x \<in> set xs \<Longrightarrow> length (g x) = c) \<Longrightarrow> length (concat (map g xs)) = length xs * c"
  by (induction xs) simp_all

lemma length_grid_points: "length (grid_points x_range y_range) = length x_range * length y_range"
  unfolding grid_points_def by (subst length_concat_const [where c = "length x_range"]) simp_all

lemma length_py_range: "length (py_range n) = nat n"
  by (simp add: py_range_def)

lemma set_py_range: "set (py_range n) = {0 ..< n}"
proof -
  have "set (py_range n) = int ` {0 ..< nat n}" by (simp add: py_range_def)
  also have "\<dots> = {0 ..< int (nat n)}" by (simp add: image_int_atLeastLessThan)
  also have "\<dots> = {0 ..< n}" by auto
  finally show ?thesis .
qed

lemma length_grid_faces:
  "length (grid_faces self)
     = nat (fst (resolution self) - 1) * (nat (snd (resolution self) - 1) * 2)"
proof -
  have inner: "length (concat (map (\<lambda>j. cell_faces self i j) (py_range (snd (resolution self) - 1))))
                 = nat (snd (resolution self) - 1) * 2" for i
    by (subst length_concat_const [where c = 2]) (simp_all add: cell_faces_def length_py_range)
  show ?thesis
    unfolding grid_faces_def
    by (subst length_concat_const [where c = "nat (snd (resolution self) - 1) * 2"])
      (simp_all add: inner length_py_range)
qed

lemma set_grid_faces:
  "set (grid_faces self)
     = (\<Union>i\<in>{0 ..< fst (resolution self) - 1}. \<Union>j\<in>{0 ..< snd (resolution self) - 1}.
          set (cell_faces self i j))"
  by (simp add: grid_faces_def set_py_range)

lemma get_index_bounds:
  assumes "0 \<le> i" "i < nx" "0 \<le> j" "j < ny" "fst (resolution self) = nx"
  shows "0 \<le> get_index self i j \<and> get_index self i j < nx * ny"
proof -
  have nx: "0 \<le> nx" using assms by simp
  have "j * nx \<le> (ny - 1) * nx" using assms nx by (intro mult_right_mono) simp_all
  then have "j * nx + i < (ny - 1) * nx + nx" using assms by linarith
  also have "\<dots> = nx * ny" by (simp add: algebra_simps)
  finally have upper: "j * nx + i < nx * ny" .
  have "0 \<le> j * nx" using assms nx by simp
  then show ?thesis using upper assms by (simp add: get_index_def)
qed

lemma valid_grid_faces:
  assumes "resolution self = (nx, ny)" "0 \<le> nx" "0 \<le> ny"
  shows "valid_faces (nat (nx * ny)) (grid_faces self)"
proof -
  have "valid_index (nat (nx * ny)) v"
    if f: "f \<in> set (grid_faces self)" and v: "v \<in> set (face_list f)" for f v
  proof -
    from f obtain i j where i: "0 \<le> i" "i < nx - 1" and j: "0 \<le> j" "j < ny - 1"
      and c: "f \<in> set (cell_faces self i j)"
      using assms(1) by (auto simp: set_grid_faces)
    have r: "fst (resolution self) = nx" using assms(1) by simp
    have b: "0 \<le> get_index self i' j' \<and> get_index self i' j' < nx * ny"
      if "i' = i \<or> i' = i + 1" "j' = j \<or> j' = j + 1" for i' j'
      using that i j by (intro get_index_bounds [OF _ _ _ _ r]) auto
    have "v \<in> {get_index self i j, get_index self (i + 1) j, get_index self (i + 1) (j + 1),
                get_index self i (j + 1)}"
      using c v by (auto simp: cell_faces_def face_list_def)
    then have "0 \<le> v \<and> v < nx * ny" using b by auto
    then show ?thesis by (simp add: valid_index_def)
  qed
  then show ?thesis by (simp add: valid_faces_def)
qed

lemma RectMesher_mesh_grid:
  assumes "resolution self = (nx, ny)" "0 \<le> nx" "0 \<le> ny"
  shows "\<exists>m x_range y_range.
           RectMesher_mesh area get_boundary self = Inr m
         \<and> np_linspace (fst (fst (corners self))) (fst (snd (corners self))) nx = Inr x_range
         \<and> np_linspace (snd (fst (corners self))) (snd (snd (corners self))) ny = Inr y_range
         \<and> points m = grid_points x_range y_range \<and> faces m = grid_faces self
         \<and> boundary m = get_boundary (points m) (faces m)
         \<and> length (points m) = nat (nx * ny)"
proof -
  obtain xr where xr: "np_linspace (fst (fst (corners self))) (fst (snd (corners self))) nx = Inr xr"
    and lx: "length xr = nat nx"
    using np_linspace_length [OF assms(2)] by blast
  obtain yr where yr: "np_linspace (snd (fst (corners self))) (snd (snd (corners self))) ny = Inr yr"
    and ly: "length yr = nat ny"
    using np_linspace_length [OF assms(3)] by blast
  have len: "length (grid_points xr yr) = nat (nx * ny)"
    using assms(2,3) by (simp add: length_grid_points lx ly nat_mult_distrib)
  have "valid_faces (length (grid_points xr yr)) (grid_faces self)"
    unfolding len using assms by (rule valid_grid_faces)
  then have "RectMesher_mesh area get_boundary self =
      Inr \<lparr>points = grid_points xr yr, faces = grid_faces self,
           boundary = get_boundary (grid_points xr yr) (grid_faces self),
           boundary_idxs = set (concat (map (\<lambda>(a, b). [a, b])
                                   (get_boundary (grid_points xr yr) (grid_faces self)))),
           areas = map (\<lambda>f. area (taken (grid_points xr yr) f)) (grid_faces self),
           edges = get_all_edges (grid_faces self), face_neighbors = None\<rparr>"
    using xr yr assms(1) by (simp add: RectMesher_mesh_def bind_err_def Mesh_init_eq Let_def)
  then show ?thesis using xr yr len by simp
qed


lemma nth_concat_rows:
  assumes "\<forall>row\<in>set rows. length row = n" "i < n" "j < length rows"
  shows "concat rows ! (j * n + i) = rows ! j ! i"
  using assms
proof (induction rows arbitrary: j)
  case Nil
  then show ?case by simp
next
  case (Cons row rows)
  have len: "length row = n" using Cons.prems(1) by simp
  show ?case
  proof (cases j)
    case 0
    then show ?thesis using Cons.prems(2) len by (simp add: nth_append)
  next
    case (Suc j')
    then have "concat rows ! (j' * n + i) = rows ! j' ! i"
      using Cons.IH [of j'] Cons.prems by simp
    then show ?thesis using Suc len by (simp add: nth_append)
  qed
qed

lemma grid_points_nth:
  assumes "i < length x_range" "j < length y_range"
  shows "grid_points x_range y_range ! (j * length x_range + i) = (x_range ! i, y_range ! j)"
proof -
  have "concat (map (\<lambda>y. map (\<lambda>x. (x, y)) x_range) y_range) ! (j * length x_range + i)
          = map (\<lambda>y. map (\<lambda>x. (x, y)) x_range) y_range ! j ! i"
    using assms by (intro nth_concat_rows) auto
  then show ?thesis using assms by (simp add: grid_points_def)
qed

lemma np_linspace_nth:
  assumes "2 \<le> num" "np_linspace start stop num = Inr xs"
  shows "length xs = nat num"
    and "\<forall>i<nat num. xs ! i = start + real i * ((stop - start) / real_of_int (num - 1))"
  using assms by (auto simp: np_linspace_def)

text \<open>
  Claim C3. With a resolution \<open>(nx, ny)\<close> of at least two samples each way, \<open>mesh\<close>
  returns a mesh whose points are the grid of the two \<open>linspace\<close> ranges, \<open>nx * ny\<close> of
  them: the ranges hold \<open>nx\<close> and \<open>ny\<close> evenly spaced samples between the corners, and
  the point with index \<open>j * nx + i\<close> is the \<open>i\<close>-th sample of the first range paired with
  the \<open>j\<close>-th of the second. Its faces are the two triangles of every grid cell, split
  along the diagonal from \<open>(i, j)\<close> to \<open>(i + 1, j + 1)\<close>: \<open>2 * (nx - 1) * (ny - 1)\<close> faces.
  For the corners \<open>(0, 0)\<close>, \<open>(2, 1)\<close> and the resolution \<open>(3, 3)\<close> that is 9 points and
  8 faces.
\<close>

theorem RectMesher_mesh_counts:
  assumes "resolution self = (nx, ny)" "2 \<le> nx" "2 \<le> ny"
  shows "\<exists>m x_range y_range.
           RectMesher_mesh area get_boundary self = Inr m
         \<and> np_linspace (fst (fst (corners self))) (fst (snd (corners self))) nx = Inr x_range
         \<and> np_linspace (snd (fst (corners self))) (snd (snd (corners self))) ny = Inr y_range
         \<and> points m = grid_points x_range y_range
         \<and> faces m = grid_faces self
         \<and> length (points m) = nat (nx * ny)
         \<and> length (faces m) = nat (2 * (nx - 1) * (ny - 1))
         \<and> set (faces m) = (\<Union>i\<in>{0 ..< nx - 1}. \<Union>j\<in>{0 ..< ny - 1}. set (cell_faces self i j))
         \<and> length x_range = nat nx \<and> length y_range = nat ny
         \<and> (\<forall>i<nat nx. x_range ! i =
               fst (fst (corners self))
                 + real i * ((fst (snd (corners self)) - fst (fst (corners self))) / real_of_int (nx - 1)))
         \<and> (\<forall>j<nat ny. y_range ! j =
               snd (fst (corners self))
                 + real j * ((snd (snd (corners self)) - snd (fst (corners self))) / real_of_int (ny - 1)))
         \<and> (\<forall>i j. 0 \<le> i \<and> i < nx \<and> 0 \<le> j \<and> j < ny \<longrightarrow>
               points m ! nat (get_index self i j) = (x_range ! nat i, y_range ! nat j))"
proof -
  have nn: "0 \<le> nx" "0 \<le> ny" using assms by simp_all
  obtain m x_range y_range where m: "RectMesher_mesh area get_boundary self = Inr m"
    and r: "np_linspace (fst (fst (corners self))) (fst (snd (corners self))) nx = Inr x_range"
       "np_linspace (snd (fst (corners self))) (snd (snd (corners self))) ny = Inr y_range"
    and p: "points m = grid_points x_range y_range" "length (points m) = nat (nx * ny)"
    and f: "faces m = grid_faces self"
    using RectMesher_mesh_grid [OF assms(1) nn, of area get_boundary] by blast
  have "nat (nx - 1) * (nat (ny - 1) * 2) = nat ((nx - 1) * ((ny - 1) * 2))"
    using assms by (simp add: nat_mult_distrib)
  also have "(nx - 1) * ((ny - 1) * 2) = 2 * (nx - 1) * (ny - 1)" by (simp only: mult_ac)
  finally have count: "length (faces m) = nat (2 * (nx - 1) * (ny - 1))"
    using assms(1) by (simp only: f length_grid_faces fst_conv snd_conv)
  have cells: "set (faces m) = (\<Union>i\<in>{0 ..< nx - 1}. \<Union>j\<in>{0 ..< ny - 1}. set (cell_faces self i j))"
    using assms(1) by (simp add: f set_grid_faces)
  note xs = np_linspace_nth [OF assms(2) r(1)]
  note ys = np_linspace_nth [OF assms(3) r(2)]
  have grid: "\<forall>i j. 0 \<le> i \<and> i < nx \<and> 0 \<le> j \<and> j < ny \<longrightarrow>
               points m ! nat (get_index self i j) = (x_range ! nat i, y_range ! nat j)"
  proof (intro allI impI)
    fix i j :: int
    assume b: "0 \<le> i \<and> i < nx \<and> 0 \<le> j \<and> j < ny"
    then have "nat (get_index self i j) = nat j * length x_range + nat i"
      using assms(1) nn by (simp add: get_index_def xs(1) nat_add_distrib nat_mult_distrib)
    moreover have "nat i < length x_range" "nat j < length y_range"
      using b by (simp_all add: xs(1) ys(1))
    ultimately show "points m ! nat (get_index self i j) = (x_range ! nat i, y_range ! nat j)"
      by (simp add: p(1) grid_points_nth)
  qed
  from m r p f count cells xs ys grid show ?thesis by blast
qed

lemma grid_faces_3x3:
  "grid_faces \<lparr>corners = c, resolution = (3, 3)\<rparr>
     = [(0, 1, 4), (0, 4, 3), (3, 4, 7), (3, 7, 6), (1, 2, 5), (1, 5, 4), (4, 5, 8), (4, 8, 7)]"
  by (simp add: grid_faces_def py_range_def cell_faces_def get_index_def upt_rec)

theorem RectMesher_mesh_counts_witness:
  "\<exists>m. RectMesher_mesh calculate_triangle_area get_boundary_from_points_faces
          \<lparr>corners = ((0, 0), (2, 1)), resolution = (3, 3)\<rparr> = Inr m
       \<and> length (points m) = 9 \<and> length (faces m) = 8
       \<and> faces m = [(0, 1, 4), (0, 4, 3), (3, 4, 7), (3, 7, 6), (1, 2, 5), (1, 5, 4), (4, 5, 8),
                     (4, 8, 7)]
       \<and> points m = [(0, 0), (1, 0), (2, 0), (0, 1 / 2), (1, 1 / 2), (2, 1 / 2), (0, 1), (1, 1),
                      (2, 1)]
       \<and> points m ! 5 = (2, 1 / 2)"
proof -
  let ?self = "\<lparr>corners = ((0, 0), (2, 1)), resolution = (3, 3)\<rparr>"
  obtain m x_range y_range where
    m: "RectMesher_mesh calculate_triangle_area get_boundary_from_points_faces ?self = Inr m"
    and c: "length (points m) = nat (3 * 3)" "length (faces m) = nat (2 * (3 - 1) * (3 - 1))"
      "faces m = grid_faces ?self"
    and l: "length x_range = nat 3" "length y_range = nat 3"
    and x: "\<forall>i<nat 3. x_range ! i =
               fst (fst (corners ?self))
                 + real i * ((fst (snd (corners ?self)) - fst (fst (corners ?self))) / real_of_int (3 - 1))"
    and y: "\<forall>j<nat 3. y_range ! j =
               snd (fst (corners ?self))
                 + real j * ((snd (snd (corners ?self)) - snd (fst (corners ?self))) / real_of_int (3 - 1))"
    and g: "\<forall>i j. 0 \<le> i \<and> i < 3 \<and> 0 \<le> j \<and> j < 3 \<longrightarrow>
               points m ! nat (get_index ?self i j) = (x_range ! nat i, y_range ! nat j)"
    using RectMesher_mesh_counts [of ?self 3 3 calculate_triangle_area get_boundary_from_points_faces]
    by auto
  have xv: "x_range ! 0 = 0" "x_range ! 1 = 1" "x_range ! 2 = 2"
    using x [rule_format, of 0] x [rule_format, of 1] x [rule_format, of 2] by simp_all
  have yv: "y_range ! 0 = 0" "y_range ! 1 = 1 / 2" "y_range ! 2 = 1"
    using y [rule_format, of 0] y [rule_format, of 1] y [rule_format, of 2] by simp_all
  have pt: "points m ! nat (j * 3 + i) = (x_range ! nat i, y_range ! nat j)"
    if "0 \<le> i \<and> i < 3 \<and> 0 \<le> j \<and> j < 3" for i j
    using g that by (simp add: get_index_def)
  have "points m ! k = [(0, 0), (1, 0), (2, 0), (0, 1 / 2), (1, 1 / 2), (2, 1 / 2), (0, 1), (1, 1),
                      (2, 1)] ! k" if "k < 9" for k
  proof -
    from that consider "k = 0" | "k = 1" | "k = 2" | "k = 3" | "k = 4" | "k = 5" | "k = 6"
      | "k = 7" | "k = 8"
      by linarith
    then show ?thesis
      using pt [of 0 0] pt [of 1 0] pt [of 2 0] pt [of 0 1] pt [of 1 1] pt [of 2 1]
        pt [of 0 2] pt [of 1 2] pt [of 2 2] xv yv
      by cases simp_all
  qed
  then have pts: "points m = [(0, 0), (1, 0), (2, 0), (0, 1 / 2), (1, 1 / 2), (2, 1 / 2), (0, 1), (1, 1),
                      (2, 1)]"
    using c(1) by (intro nth_equalityI) simp_all
  then have p5: "points m ! 5 = (2, 1 / 2)" by simp
  have "length (points m) = 9" "length (faces m) = 8" using c by simp_all
  moreover have "faces m = [(0, 1, 4), (0, 4, 3), (3, 4, 7), (3, 7, 6), (1, 2, 5), (1, 5, 4), (4, 5, 8),
                     (4, 8, 7)]"
    using c(3) by (simp add: grid_faces_3x3)
  ultimately show ?thesis using m pts p5 by blast
qed

text \<open>
  Claim C8, as amended. \<open>RectMesher\<close> tests its resolution nowhere. With fewer than two
  samples along an axis and no negative count, \<open>mesh\<close> computes the grid, finds no
  cell, and returns a mesh of \<open>nx * ny\<close> points without faces, given that the boundary
  helper returns. A negative count is refused by \<open>np.linspace\<close>, with a ValueError.
\<close>

theorem RectMesher_no_resolution_check:
  assumes "resolution self = (nx, ny)" "nx < 2 \<or> ny < 2"
  shows "(0 \<le> nx \<and> 0 \<le> ny \<longrightarrow>
           (\<exists>m. RectMesher_mesh area get_boundary self = Inr m
                \<and> length (points m) = nat (nx * ny) \<and> faces m = [] \<and> areas m = []))
       \<and> (nx < 0 \<or> ny < 0 \<longrightarrow> RectMesher_mesh area get_boundary self = Inl ValueError)"
proof -
  have empty: "grid_faces self = []"
  proof -
    have "length (grid_faces self) = 0"
      using assms by (auto simp: length_grid_faces)
    then show ?thesis by simp
  qed
  have built: "\<exists>m. RectMesher_mesh area get_boundary self = Inr m
                \<and> length (points m) = nat (nx * ny) \<and> faces m = [] \<and> areas m = []"
    if nn: "0 \<le> nx \<and> 0 \<le> ny"
  proof -
    obtain m where m: "RectMesher_mesh area get_boundary self = Inr m"
      and p: "length (points m) = nat (nx * ny)" and f: "faces m = grid_faces self"
      using RectMesher_mesh_grid [OF assms(1), of area get_boundary] nn by blast
    have "areas m = []"
      using m by (auto simp: RectMesher_mesh_def bind_err_def Mesh_init_eq Let_def empty
          split: sum.splits if_splits)
    then show ?thesis using m p f empty by simp
  qed
  have refused: "RectMesher_mesh area get_boundary self = Inl ValueError" if "nx < 0 \<or> ny < 0"
  proof (cases "nx < 0")
    case True
    then show ?thesis
      using assms(1) by (simp add: RectMesher_mesh_def bind_err_def np_linspace_negative)
  next
    case False
    then have "ny < 0" "0 \<le> nx" using that by simp_all
    then show ?thesis
      using assms(1) np_linspace_length [of nx "fst (fst (corners self))" "fst (snd (corners self))"]
      by (auto simp: RectMesher_mesh_def bind_err_def np_linspace_negative)
  qed
  from built refused show ?thesis by blast
qed

theorem RectMesher_no_resolution_check_witness:
  "(\<exists>m. RectMesher_mesh calculate_triangle_area get_boundary_from_points_faces
          \<lparr>corners = ((0, 0), (2, 1)), resolution = (1, 3)\<rparr> = Inr m
        \<and> length (points m) = 3 \<and> faces m = [] \<and> areas m = [])
   \<and> RectMesher_mesh calculate_triangle_area get_boundary_from_points_faces
          \<lparr>corners = ((0, 0), (2, 1)), resolution = (3, - 1)\<rparr> = Inl ValueError"
  using RectMesher_no_resolution_check [of "\<lparr>corners = ((0, 0), (2, 1)), resolution = (1, 3)\<rparr>" 1 3
      calculate_triangle_area get_boundary_from_points_faces]
    RectMesher_no_resolution_check [of "\<lparr>corners = ((0, 0), (2, 1)), resolution = (3, - 1)\<rparr>" 3 "- 1"
      calculate_triangle_area get_boundary_from_points_faces]
  by auto

text \<open>
  A single column of three samples: no error, and a mesh of three points on a line
  with no face.
\<close>

theorem single_column_mesh:
  "RectMesher_mesh calculate_triangle_area get_boundary_from_points_faces
      \<lparr>corners = ((0, 0), (2, 1)), resolution = (1, 3)\<rparr>
   = Inr \<lparr>points = [(0, 0), (0, 1 / 2), (0, 1)], faces = [], boundary = [], boundary_idxs = {},
          areas = [], edges = {}, face_neighbors = None\<rparr>"
  by (simp add: RectMesher_mesh_def bind_err_def np_linspace_def grid_points_def grid_faces_def
      py_range_def get_boundary_from_points_faces_def Mesh_init_def get_all_edges_def upt_rec)

section \<open>HeatSolver\<close>

lemma time_loop_result:
  assumes "time_loop c st self K_temp b js (u, ts, us) = Inr (u', ts', us')"
  shows "ts' = ts @ map (\<lambda>i. dt self * real (i + 1)) js
       \<and> (\<exists>vs. us' = us @ vs \<and> length vs = length js
             \<and> (\<forall>k<length js.
                   linalg_solve c
                     (mat_add (st ! solver_M self) (mat_scale (st ! K_temp) (dt self)))
                     (vec_add (mat_vec (st ! solver_M self) ((u # vs) ! k)) (vec_scale b (dt self)))
                   = Inr (vs ! k)))"
  using assms
proof (induction js arbitrary: u ts us)
  case Nil
  then show ?case by simp
next
  case (Cons i rest)
  let ?A = "mat_add (st ! solver_M self) (mat_scale (st ! K_temp) (dt self))"
  let ?rhs = "\<lambda>w. vec_add (mat_vec (st ! solver_M self) w) (vec_scale b (dt self))"
  from Cons.prems obtain u1 where s: "linalg_solve c ?A (?rhs u) = Inr u1"
    and rest: "time_loop c st self K_temp b rest (u1, ts @ [dt self * real (i + 1)], us @ [u1])
                 = Inr (u', ts', us')"
    by (auto split: sum.splits)
  from Cons.IH [OF rest] obtain vs where t: "ts' = (ts @ [dt self * real (i + 1)]) @ map (\<lambda>i. dt self * real (i + 1)) rest"
    and v: "us' = (us @ [u1]) @ vs" "length vs = length rest"
    and k: "\<forall>k<length rest. linalg_solve c ?A (?rhs ((u1 # vs) ! k)) = Inr (vs ! k)"
    by blast
  have "\<forall>k<length (i # rest). linalg_solve c ?A (?rhs ((u # u1 # vs) ! k)) = Inr ((u1 # vs) ! k)"
  proof (intro allI impI)
    fix n assume n: "n < length (i # rest)"
    show "linalg_solve c ?A (?rhs ((u # u1 # vs) ! n)) = Inr ((u1 # vs) ! n)"
    proof (cases n)
      case 0
      then show ?thesis using s by simp
    next
      case (Suc n')
      then have "n' < length rest" using n by simp
      then show ?thesis using k Suc by simp
    qed
  qed
  then have "\<exists>ws. us' = us @ ws \<and> length ws = length (i # rest)
             \<and> (\<forall>k<length (i # rest). linalg_solve c ?A (?rhs ((u # ws) ! k)) = Inr (ws ! k))"
    using v by (intro exI [of _ "u1 # vs"]) simp
  then show ?case using t by simp
qed

lemma time_loop_cong:
  assumes "st' ! solver_M self' = st ! solver_M self" "st' ! K_temp' = st ! K_temp" "dt self' = dt self"
  shows "time_loop c st' self' K_temp' b js s = time_loop c st self K_temp b js s"
proof (induction js arbitrary: s)
  case Nil
  show ?case by simp
next
  case (Cons i rest)
  obtain u ts us where s: "s = (u, ts, us)" by (cases s)
  show ?case unfolding s using assms Cons.IH by (simp split: sum.splits)
qed

lemma solve_unfold:
  "solve c self st u_initial robin_bc load_function =
     (let st2 = st @ [K_eff c self st robin_bc]
      in case time_loop c st2 self (length st) (b_eff c self robin_bc load_function)
                [0 ..< nat (num_iterations self)] (u_initial, [0], [u_initial]) of
           Inl e \<Rightarrow> (Inl e, self, st2)
         | Inr (u, ts, us) \<Rightarrow>
             (Inr \<lparr>t_values = ts, u_values = us\<rparr>,
              self\<lparr>result := Some \<lparr>t_values = ts, u_values = us\<rparr>\<rparr>, st2))"
  by (cases robin_bc)
    (auto simp: solve_def np_copy_def np_iadd_def K_eff_def b_eff_def Let_def split: sum.splits prod.splits)


lemma solve_success:
  assumes "fst (solve c self st u_initial robin_bc load_function) = Inr res"
  shows "t_values res = 0 # map (\<lambda>i. dt self * real (i + 1)) [0 ..< nat (num_iterations self)]"
    and "\<exists>vs. u_values res = u_initial # vs \<and> length vs = nat (num_iterations self)
           \<and> (\<forall>k<nat (num_iterations self).
                 linalg_solve c
                   (mat_add ((st @ [K_eff c self st robin_bc]) ! solver_M self)
                      (mat_scale (K_eff c self st robin_bc) (dt self)))
                   (vec_add (mat_vec ((st @ [K_eff c self st robin_bc]) ! solver_M self)
                               ((u_initial # vs) ! k))
                      (vec_scale (b_eff c self robin_bc load_function) (dt self)))
                 = Inr (vs ! k))"
proof -
  let ?st2 = "st @ [K_eff c self st robin_bc]"
  from assms obtain u ts us where
    loop: "time_loop c ?st2 self (length st) (b_eff c self robin_bc load_function)
             [0 ..< nat (num_iterations self)] (u_initial, [0], [u_initial]) = Inr (u, ts, us)"
    and res: "res = \<lparr>t_values = ts, u_values = us\<rparr>"
    by (auto simp: solve_unfold Let_def split: sum.splits prod.splits)
  note r = time_loop_result [OF loop]
  show "t_values res = 0 # map (\<lambda>i. dt self * real (i + 1)) [0 ..< nat (num_iterations self)]"
    using r by (simp add: res)
  show "\<exists>vs. u_values res = u_initial # vs \<and> length vs = nat (num_iterations self)
           \<and> (\<forall>k<nat (num_iterations self).
                 linalg_solve c
                   (mat_add (?st2 ! solver_M self) (mat_scale (K_eff c self st robin_bc) (dt self)))
                   (vec_add (mat_vec (?st2 ! solver_M self) ((u_initial # vs) ! k))
                      (vec_scale (b_eff c self robin_bc load_function) (dt self)))
                 = Inr (vs ! k))"
    using r by (simp add: res)
qed

lemma unit_solve:
  "solve unit_collaborators unit_solver unit_store [3] (Some unit_robin) None
     = (Inr \<lparr>t_values = [0, 1, 2], u_values = [[3], [5 / 3], [11 / 9]]\<rparr>,
        unit_solver\<lparr>result := Some \<lparr>t_values = [0, 1, 2], u_values = [[3], [5 / 3], [11 / 9]]\<rparr>\<rparr>,
        [[[1]], [[1]], [[2]]])"
  by (simp add: solve_def unit_collaborators_def unit_solver_def unit_store_def unit_robin_def
      np_copy_def np_iadd_def mat_add_def mat_scale_def vec_add_def vec_scale_def mat_vec_def
      solve_1x1_def upt_rec Let_def)

text \<open>
  Claim C2. A call of \<open>solve\<close> that returns, on a solver with \<open>num_iterations = N \<ge> 0\<close>,
  gives \<open>N + 1\<close> time stamps and \<open>N + 1\<close> fields, the \<open>k\<close>-th time stamp is \<open>k * dt\<close>, and
  the first field is \<open>u_initial\<close>.
\<close>

theorem solve_records:
  assumes "0 \<le> num_iterations self"
    and "fst (solve c self st u_initial robin_bc load_function) = Inr res"
  shows "int (length (t_values res)) = num_iterations self + 1
       \<and> int (length (u_values res)) = num_iterations self + 1
       \<and> (\<forall>k. int k \<le> num_iterations self \<longrightarrow> t_values res ! k = real k * dt self)
       \<and> u_values res ! 0 = u_initial"
proof -
  note s = solve_success [OF assms(2)]
  have lt: "int (length (t_values res)) = num_iterations self + 1"
    using assms(1) by (simp add: s(1))
  have lu: "int (length (u_values res)) = num_iterations self + 1"
    using assms(1) s(2) by auto
  have tk: "t_values res ! k = real k * dt self" if "int k \<le> num_iterations self" for k
  proof (cases k)
    case 0
    then show ?thesis by (simp add: s(1))
  next
    case (Suc k')
    then have "k' < nat (num_iterations self)" using that by simp
    then show ?thesis by (simp add: s(1) Suc mult.commute)
  qed
  have "u_values res ! 0 = u_initial" using s(2) by auto
  with lt lu tk show ?thesis by blast
qed

theorem solve_records_witness:
  "0 \<le> num_iterations unit_solver
   \<and> fst (solve unit_collaborators unit_solver unit_store [3] (Some unit_robin) None)
       = Inr \<lparr>t_values = [0, 1, 2], u_values = [[3], [5 / 3], [11 / 9]]\<rparr>
   \<and> int (length [0, 1, 2 :: real]) = num_iterations unit_solver + 1
   \<and> int (length [[3], [5 / 3], [11 / 9 :: real]]) = num_iterations unit_solver + 1
   \<and> [0, 1, 2] ! 2 = real 2 * dt unit_solver"
proof -
  have n: "0 \<le> num_iterations unit_solver" by (simp add: unit_solver_def)
  have r: "fst (solve unit_collaborators unit_solver unit_store [3] (Some unit_robin) None)
       = Inr \<lparr>t_values = [0, 1, 2], u_values = [[3], [5 / 3], [11 / 9]]\<rparr>"
    by (simp add: unit_solve)
  have k: "int 2 \<le> num_iterations unit_solver" by (simp add: unit_solver_def)
  have d: "dt unit_solver = 1" by (simp add: unit_solver_def)
  show ?thesis using solve_records [OF n r] n r k d by simp
qed


lemma unit_eff:
  "K_eff unit_collaborators unit_solver unit_store (Some unit_robin) = [[2]]"
  "b_eff unit_collaborators unit_solver (Some unit_robin) None = [2]"
  by (simp_all add: K_eff_def b_eff_def unit_collaborators_def unit_solver_def unit_store_def
      unit_robin_def mat_add_def vec_add_def)

lemma sound_unit_collaborators: "sound_solver unit_collaborators"
  unfolding sound_solver_def
proof (intro allI impI)
  fix A y x
  assume "linalg_solve unit_collaborators A y = Inr x"
  then have s: "solve_1x1 A y = Inr x" by (simp add: unit_collaborators_def)
  then obtain a v where "A = [[a]]" "y = [v]" "a \<noteq> 0" "x = [v / a]"
    by (auto simp: solve_1x1_def split: list.splits if_splits)
  then show "mat_vec A x = y" by (simp add: mat_vec_def)
qed

text \<open>
  Claim C1. In a call of \<open>solve\<close> that returns, every recorded field after the first is
  what the linear solver returned for the system with matrix \<open>M + K_eff * dt\<close> and right
  side \<open>M @ u_prev + b_eff * dt\<close>, where \<open>K_eff\<close> is \<open>K\<close>, plus \<open>R\<close> under a Robin condition,
  and \<open>b_eff\<close> is \<open>b\<close>, plus \<open>r\<close> under a Robin condition. With a solver whose results
  solve their systems, each recorded field solves that system.
\<close>

theorem solve_backward_euler:
  assumes "solver_M self < length st"
    and "fst (solve c self st u_initial robin_bc load_function) = Inr res"
  shows "(\<forall>i<nat (num_iterations self).
            linalg_solve c
              (mat_add (st ! solver_M self) (mat_scale (K_eff c self st robin_bc) (dt self)))
              (vec_add (mat_vec (st ! solver_M self) (u_values res ! i))
                 (vec_scale (b_eff c self robin_bc load_function) (dt self)))
            = Inr (u_values res ! (i + 1)))
       \<and> (sound_solver c \<longrightarrow>
            (\<forall>i<nat (num_iterations self).
               mat_vec (mat_add (st ! solver_M self) (mat_scale (K_eff c self st robin_bc) (dt self)))
                 (u_values res ! (i + 1))
               = vec_add (mat_vec (st ! solver_M self) (u_values res ! i))
                   (vec_scale (b_eff c self robin_bc load_function) (dt self))))"
proof -
  have M: "(st @ [K_eff c self st robin_bc]) ! solver_M self = st ! solver_M self"
    using assms(1) by (simp add: nth_append)
  obtain vs where u: "u_values res = u_initial # vs"
    and k: "\<forall>k<nat (num_iterations self).
                 linalg_solve c
                   (mat_add (st ! solver_M self) (mat_scale (K_eff c self st robin_bc) (dt self)))
                   (vec_add (mat_vec (st ! solver_M self) ((u_initial # vs) ! k))
                      (vec_scale (b_eff c self robin_bc load_function) (dt self)))
                 = Inr (vs ! k)"
    using solve_success(2) [OF assms(2)] unfolding M by blast
  have returned: "\<forall>i<nat (num_iterations self).
            linalg_solve c
              (mat_add (st ! solver_M self) (mat_scale (K_eff c self st robin_bc) (dt self)))
              (vec_add (mat_vec (st ! solver_M self) (u_values res ! i))
                 (vec_scale (b_eff c self robin_bc load_function) (dt self)))
            = Inr (u_values res ! (i + 1))"
    using k by (simp add: u)
  then show ?thesis unfolding sound_solver_def by blast
qed

theorem solve_backward_euler_witness:
  "sound_solver unit_collaborators \<and> solver_M unit_solver < length unit_store
   \<and> fst (solve unit_collaborators unit_solver unit_store [3] (Some unit_robin) None)
       = Inr \<lparr>t_values = [0, 1, 2], u_values = [[3], [5 / 3], [11 / 9]]\<rparr>
   \<and> mat_vec (mat_add [[1]] (mat_scale [[2]] 1)) [5 / 3] = vec_add (mat_vec [[1]] [3]) (vec_scale [2] 1)
   \<and> mat_vec (mat_add [[1]] (mat_scale [[2]] 1)) [11 / 9] = vec_add (mat_vec [[1]] [5 / 3]) (vec_scale [2] 1)"
proof -
  have m: "solver_M unit_solver < length unit_store" by (simp add: unit_solver_def unit_store_def)
  have r: "fst (solve unit_collaborators unit_solver unit_store [3] (Some unit_robin) None)
       = Inr \<lparr>t_values = [0, 1, 2], u_values = [[3], [5 / 3], [11 / 9]]\<rparr>"
    by (simp add: unit_solve)
  have v: "unit_store ! solver_M unit_solver = [[1]]" "dt unit_solver = 1"
    "nat (num_iterations unit_solver) = 2"
    by (simp_all add: unit_solver_def unit_store_def)
  note e = solve_backward_euler [OF m r, unfolded unit_eff v]
  let ?us = "u_values \<lparr>t_values = [0, 1, 2], u_values = [[3], [5 / 3], [11 / 9]]\<rparr>"
  from e sound_unit_collaborators
  have eq: "\<forall>i<2. mat_vec (mat_add [[1]] (mat_scale [[2]] 1)) (?us ! (i + 1))
                 = vec_add (mat_vec [[1]] (?us ! i)) (vec_scale [2] 1)"
    by blast
  have "mat_vec (mat_add [[1]] (mat_scale [[2]] 1)) (?us ! (0 + 1))
          = vec_add (mat_vec [[1]] (?us ! 0)) (vec_scale [2] 1)"
    using eq by (rule allE [of _ 0]) simp
  then have first:
    "mat_vec (mat_add [[1]] (mat_scale [[2]] 1)) [5 / 3] = vec_add (mat_vec [[1]] [3]) (vec_scale [2] 1)"
    by simp
  have "mat_vec (mat_add [[1]] (mat_scale [[2]] 1)) (?us ! (1 + 1))
          = vec_add (mat_vec [[1]] (?us ! 1)) (vec_scale [2] 1)"
    using eq by (rule allE [of _ 1]) simp
  then have second:
    "mat_vec (mat_add [[1]] (mat_scale [[2]] 1)) [11 / 9]
       = vec_add (mat_vec [[1]] [5 / 3]) (vec_scale [2] 1)"
    by simp
  from first second m r sound_unit_collaborators show ?thesis by blast
qed

lemma solve_parts:
  "fst (solve c self st u_initial robin_bc load_function) =
     (case time_loop c (st @ [K_eff c self st robin_bc]) self (length st)
             (b_eff c self robin_bc load_function) [0 ..< nat (num_iterations self)]
             (u_initial, [0], [u_initial]) of
        Inl e \<Rightarrow> Inl e
      | Inr (u, ts, us) \<Rightarrow> Inr \<lparr>t_values = ts, u_values = us\<rparr>)"
  "snd (snd (solve c self st u_initial robin_bc load_function)) = st @ [K_eff c self st robin_bc]"
  "\<exists>r. fst (snd (solve c self st u_initial robin_bc load_function)) = self\<lparr>result := r\<rparr>"
proof -
  show "fst (solve c self st u_initial robin_bc load_function) =
     (case time_loop c (st @ [K_eff c self st robin_bc]) self (length st)
             (b_eff c self robin_bc load_function) [0 ..< nat (num_iterations self)]
             (u_initial, [0], [u_initial]) of
        Inl e \<Rightarrow> Inl e
      | Inr (u, ts, us) \<Rightarrow> Inr \<lparr>t_values = ts, u_values = us\<rparr>)"
    by (simp add: solve_unfold Let_def split: sum.splits prod.splits)
  show "snd (snd (solve c self st u_initial robin_bc load_function)) = st @ [K_eff c self st robin_bc]"
    by (simp add: solve_unfold Let_def split: sum.splits prod.splits)
  show "\<exists>r. fst (snd (solve c self st u_initial robin_bc load_function)) = self\<lparr>result := r\<rparr>"
  proof (cases "time_loop c (st @ [K_eff c self st robin_bc]) self (length st)
             (b_eff c self robin_bc load_function) [0 ..< nat (num_iterations self)]
             (u_initial, [0], [u_initial])")
    case (Inl e)
    then have "fst (snd (solve c self st u_initial robin_bc load_function)) = self\<lparr>result := result self\<rparr>"
      by (simp add: solve_unfold Let_def)
    then show ?thesis by (rule exI)
  next
    case (Inr s)
    obtain u ts us where s: "s = (u, ts, us)" by (cases s)
    have "fst (snd (solve c self st u_initial robin_bc load_function))
            = self\<lparr>result := Some \<lparr>t_values = ts, u_values = us\<rparr>\<rparr>"
      using Inr by (simp add: solve_unfold Let_def s)
    then show ?thesis by (rule exI)
  qed
qed

text \<open>
  Claim C9. A call of \<open>solve\<close> leaves the arrays the solver holds as \<open>M\<close> and \<open>K\<close>, and
  every other array that existed before the call, as they were, with or without a Robin
  condition and whether or not the linear solver raised: the Robin matrix is added to
  the new array \<open>K_temp\<close>. A second call with the same arguments has the same outcome.
\<close>

theorem solve_preserves_matrices:
  assumes "solver_M self < length st" "solver_K self < length st"
    and "solve c self st u_initial robin_bc load_function = (outcome, self', st')"
  shows "solver_M self' = solver_M self \<and> solver_K self' = solver_K self
       \<and> st' ! solver_M self' = st ! solver_M self \<and> st' ! solver_K self' = st ! solver_K self
       \<and> (\<forall>a<length st. st' ! a = st ! a)
       \<and> fst (solve c self' st' u_initial robin_bc load_function) = outcome"
proof -
  let ?Ke = "K_eff c self st robin_bc"
  have st': "st' = st @ [?Ke]" using solve_parts(2) [of c self st u_initial robin_bc load_function] assms(3) by simp
  obtain r where self': "self' = self\<lparr>result := r\<rparr>"
    using solve_parts(3) [of c self st u_initial robin_bc load_function] assms(3) by auto
  have old: "\<forall>a<length st. st' ! a = st ! a" by (simp add: st' nth_append)
  have Ke: "K_eff c self' st' robin_bc = ?Ke"
    using assms(2) by (auto simp: K_eff_def self' st' nth_append split: option.splits)
  have be: "b_eff c self' robin_bc load_function = b_eff c self robin_bc load_function"
    by (cases robin_bc) (simp_all add: b_eff_def self' Let_def)
  have "time_loop c (st' @ [?Ke]) self' (length st') (b_eff c self robin_bc load_function)
          [0 ..< nat (num_iterations self)] (u_initial, [0], [u_initial])
      = time_loop c (st @ [?Ke]) self (length st) (b_eff c self robin_bc load_function)
          [0 ..< nat (num_iterations self)] (u_initial, [0], [u_initial])"
    using assms(1) by (intro time_loop_cong) (simp_all add: self' st' nth_append)
  then have "fst (solve c self' st' u_initial robin_bc load_function)
      = fst (solve c self st u_initial robin_bc load_function)"
    unfolding solve_parts(1) Ke be by (simp add: self')
  then have again: "fst (solve c self' st' u_initial robin_bc load_function) = outcome"
    using assms(3) by simp
  show ?thesis using old assms(1,2) again by (simp add: self')
qed

theorem solve_preserves_matrices_witness:
  "solver_M unit_solver < length unit_store \<and> solver_K unit_solver < length unit_store
   \<and> snd (snd (solve unit_collaborators unit_solver unit_store [3] (Some unit_robin) None))
       = [[[1]], [[1]], [[2]]]
   \<and> unit_store ! solver_M unit_solver = [[1]] \<and> unit_store ! solver_K unit_solver = [[1]]
   \<and> fst (solve unit_collaborators
            (unit_solver\<lparr>result := Some \<lparr>t_values = [0, 1, 2], u_values = [[3], [5 / 3], [11 / 9]]\<rparr>\<rparr>)
            [[[1]], [[1]], [[2]]] [3] (Some unit_robin) None)
       = Inr \<lparr>t_values = [0, 1, 2], u_values = [[3], [5 / 3], [11 / 9]]\<rparr>"
proof -
  have a: "solver_M unit_solver < length unit_store" "solver_K unit_solver < length unit_store"
    by (simp_all add: unit_solver_def unit_store_def)
  have v: "unit_store ! solver_M unit_solver = [[1]]" "unit_store ! solver_K unit_solver = [[1]]"
    by (simp_all add: unit_solver_def unit_store_def)
  show ?thesis
    using solve_preserves_matrices [OF a unit_solve] a v by (simp add: unit_solve)
qed

end
